theory Spec2Isabelle
  imports Main
begin

section \<open>Strings as the Go and TypeScript sources use them\<close>

text \<open>
  Source strings are modelled as \<open>string\<close> (a list of 8-bit characters; a Go string is its
  UTF-8 bytes). \<open>toLowerCase\<close> of the worker is modelled on the ASCII letters, which is
  what it does to the hexadecimal wallet addresses the worker is written for.
\<close>

definition toLowerChar :: "char \<Rightarrow> char" where
  "toLowerChar c =
     (let n = (of_char c :: nat)
      in if 65 \<le> n \<and> n \<le> 90 then char_of (n + 32) else c)"

definition toLowerCase :: "string \<Rightarrow> string" where
  "toLowerCase s = map toLowerChar s"

definition isASCII :: "string \<Rightarrow> bool" where
  "isASCII s = list_all (\<lambda>c. (of_char c :: nat) < 128) s"

text \<open>
  \<open>strings.EqualFold\<close> of the Go library: the loop over both strings byte by byte while
  the bytes are ASCII (equal bytes, or an upper-case letter and its lower-case form), the
  comparison of the lengths when one string ends, and, from the first position where
  either byte is not ASCII, the library's Unicode simple folding of the two remainders,
  which is the parameter \<open>unicodePath\<close>.
\<close>

fun EqualFold :: "(string \<Rightarrow> string \<Rightarrow> bool) \<Rightarrow> string \<Rightarrow> string \<Rightarrow> bool" where
  "EqualFold unicodePath [] [] = True"
| "EqualFold unicodePath [] (tr # t) = False"
| "EqualFold unicodePath (sr # s) [] = False"
| "EqualFold unicodePath (sr # s) (tr # t) =
     (if (of_char sr :: nat) \<ge> 128 \<or> (of_char tr :: nat) \<ge> 128
        then unicodePath (sr # s) (tr # t)
      else if tr = sr then EqualFold unicodePath s t
      else if 65 \<le> min (of_char sr :: nat) (of_char tr)
              \<and> min (of_char sr :: nat) (of_char tr) \<le> 90
              \<and> max (of_char sr :: nat) (of_char tr) = min (of_char sr) (of_char tr) + 32
        then EqualFold unicodePath s t
      else False)"

text \<open>\<open>strings.HasPrefix\<close> and \<open>strings.Contains\<close> (also JavaScript's \<open>includes\<close>).\<close>

fun HasPrefix :: "string \<Rightarrow> string \<Rightarrow> bool" where
  "HasPrefix s [] = True"
| "HasPrefix [] (p # ps) = False"
| "HasPrefix (c # cs) (p # ps) = (c = p \<and> HasPrefix cs ps)"

fun Contains :: "string \<Rightarrow> string \<Rightarrow> bool" where
  "Contains [] sub = HasPrefix [] sub"
| "Contains (c # cs) sub = (HasPrefix (c # cs) sub \<or> Contains cs sub)"

section \<open>Settings and the repository allow-list (migrations/1706745616\_add\_settings.go)\<close>

record setting =
  skey :: string
  svalue :: string
  senabled :: bool
  sdescription :: string

text \<open>The \<open>settings\<close> collection; \<open>GetSetting\<close> returns the first record with the key.\<close>

type_synonym settings = "setting list"

definition GetSetting :: "settings \<Rightarrow> string \<Rightarrow> setting option" where
  "GetSetting app k = find (\<lambda>r. skey r = k) app"

definition IsSettingEnabled :: "settings \<Rightarrow> string \<Rightarrow> bool" where
  "IsSettingEnabled app k = (case GetSetting app k of None \<Rightarrow> False | Some r \<Rightarrow> senabled r)"

definition GetSettingValue :: "settings \<Rightarrow> string \<Rightarrow> string" where
  "GetSettingValue app k = (case GetSetting app k of None \<Rightarrow> [] | Some r \<Rightarrow> svalue r)"

text \<open>
  \<open>split(s, sep)\<close>: the loop over \<open>i\<close> with the running \<open>start\<close>. The slice
  \<open>s[start:i]\<close> panics in Go when \<open>start > i\<close> (possible only for a separator longer than
  one byte); the panic is the value \<open>None\<close>.
\<close>

function split_loop :: "string \<Rightarrow> string \<Rightarrow> nat \<Rightarrow> nat \<Rightarrow> string list \<Rightarrow> string list option" where
  "split_loop s sep i start result =
     (if i < length s then
        (if i + length sep \<le> length s \<and> take (length sep) (drop i s) = sep then
           (if start \<le> i
            then split_loop s sep (i + 1) (i + length sep) (result @ [take (i - start) (drop start s)])
            else None)
         else split_loop s sep (i + 1) start result)
      else (if start \<le> length s then Some (result @ [drop start s]) else None))"
  by pat_completeness auto
termination
  by (relation "measure (\<lambda>(s, sep, i, start, result). length s - i)") auto

declare split_loop.simps [simp del]

definition split_str :: "string \<Rightarrow> string \<Rightarrow> string list option" where
  "split_str s sep = split_loop s sep 0 0 []"

definition isBlank :: "char \<Rightarrow> bool" where
  "isBlank c = (c = CHR '' '' \<or> c = CHR 0x09)"

text \<open>\<open>trim\<close>: drops blanks and tabs at both ends.\<close>

definition trim :: "string \<Rightarrow> string" where
  "trim s = rev (dropWhile isBlank (rev (dropWhile isBlank s)))"

definition splitAndTrim :: "string \<Rightarrow> string list option" where
  "splitAndTrim s =
     (case split_str s '','' of
        None \<Rightarrow> None
      | Some ps \<Rightarrow> Some (filter (\<lambda>p. p \<noteq> []) (map trim ps)))"

definition matchPattern :: "string \<Rightarrow> string \<Rightarrow> bool" where
  "matchPattern repo pattern =
     (if length pattern > 0 \<and> pattern ! (length pattern - 1) = CHR ''*'' then
        (let prefix = take (length pattern - 1) pattern
         in length repo \<ge> length prefix \<and> take (length prefix) repo = prefix)
      else repo = pattern)"

fun matchesAnyPattern :: "string \<Rightarrow> string list \<Rightarrow> bool" where
  "matchesAnyPattern repo [] = False"
| "matchesAnyPattern repo (pattern # patterns) =
     (if matchPattern repo pattern then True else matchesAnyPattern repo patterns)"

text \<open>\<open>IsRepoWhitelisted\<close> reads the setting from the application state it is handed.\<close>

definition IsRepoWhitelisted :: "settings \<Rightarrow> string \<Rightarrow> bool option" where
  "IsRepoWhitelisted app repoFullName =
     (let v = GetSettingValue app ''whitelisted_repos'' in
      if v = [] then Some False
      else (case splitAndTrim v of
              None \<Rightarrow> None
            | Some patterns \<Rightarrow> Some (matchesAnyPattern repoFullName patterns)))"

text \<open>The two records the migration seeds.\<close>

definition default_settings :: settings where
  "default_settings =
     [\<lparr>skey = ''allow_agent_registration'', svalue = [], senabled = False,
       sdescription = ''Allow Oracle agents to self-register with their own wallet and birth issue''\<rparr>,
      \<lparr>skey = ''whitelisted_repos'', svalue = ''Soul-Brews-Studio/*'', senabled = True,
       sdescription = ''Comma-separated list of repo patterns allowed for agent registration (e.g., 'owner/repo' or 'org/*')''\<rparr>]"

section \<open>The wallet sign-in worker (siwer/src/index.ts)\<close>

text \<open>The outcome of a call inside \<open>try\<close>: it throws with a message or returns.\<close>

datatype 'a attempt = Threw string | Returned 'a

text \<open>
  What a request reads from its runtime: \<open>Date.now()\<close> in milliseconds,
  \<open>crypto.randomUUID()\<close>, \<open>new Date(t).toISOString()\<close> and viem's \<open>verifyMessage\<close>
  (address, message, signature).
\<close>

record runtime =
  DateNow :: nat
  randomUUID :: string
  toISOString :: "nat \<Rightarrow> string"
  verifyMessage :: "string \<Rightarrow> string \<Rightarrow> string \<Rightarrow> bool attempt"

text \<open>
  The \<open>NONCES\<close> key-value namespace: a key holds the stored object \<open>{nonce, timestamp}\<close>
  (written with \<open>JSON.stringify\<close>, read back with \<open>JSON.parse\<close>) and the time in
  milliseconds at which the entry expires; \<open>get\<close> of an expired key gives null.
\<close>

record nonceData =
  nonce :: string
  timestamp :: nat

type_synonym kv = "string \<rightharpoonup> (nonceData \<times> nat)"

definition kv_put :: "kv \<Rightarrow> nat \<Rightarrow> string \<Rightarrow> nonceData \<Rightarrow> nat \<Rightarrow> kv" where
  "kv_put store now k v expirationTtl = store(k \<mapsto> (v, now + expirationTtl * 1000))"

definition kv_get :: "kv \<Rightarrow> nat \<Rightarrow> string \<Rightarrow> nonceData option" where
  "kv_get store now k =
     (case store k of
        None \<Rightarrow> None
      | Some (v, expires) \<Rightarrow> if now < expires then Some v else None)"

definition kv_delete :: "kv \<Rightarrow> string \<Rightarrow> kv" where
  "kv_delete store k = store(k := None)"

text \<open>JavaScript's \<open>!x\<close> on an optional string field: absent, null or empty.\<close>

fun falsy :: "string option \<Rightarrow> bool" where
  "falsy None = True"
| "falsy (Some s) = (s = [])"

definition newline :: char where
  "newline = CHR 0x0A"

text \<open>The message template, the same in \<open>/nonce\<close> and \<open>/verify\<close>.\<close>

definition signInMessage :: "(nat \<Rightarrow> string) \<Rightarrow> string \<Rightarrow> nat \<Rightarrow> string" where
  "signInMessage isoString n t =
     ''Sign in to OracleNet'' @ [newline, newline] @ ''Nonce: '' @ n @ [newline]
       @ ''Timestamp: '' @ isoString t"

datatype nonce_response =
    NonceError string nat
  | NonceOk string string

text \<open>\<open>POST /nonce\<close>: the response (nonce and message on success) and the updated store.\<close>

definition post_nonce :: "runtime \<Rightarrow> string option \<Rightarrow> kv \<Rightarrow> nonce_response \<times> kv" where
  "post_nonce rt address store =
     (if falsy address then (NonceError ''address required'' 400, store)
      else
        (let n = take 8 (randomUUID rt);
             t = DateNow rt;
             store' = kv_put store (DateNow rt) (toLowerCase (the address))
                        \<lparr>nonce = n, timestamp = t\<rparr> 300;
             message = signInMessage (toISOString rt) n t
         in (NonceOk n message, store')))"

text \<open>The \<open>oracles\<close> collection of PocketBase, seen from the worker.\<close>

record oracle_record =
  oid :: string
  oname :: string
  wallet_address :: string
  approved :: bool
  karma :: int

record create_request =
  cname :: string
  cwallet_address :: string
  cpassword :: string
  cpasswordConfirm :: string
  capproved :: bool
  ckarma :: int

text \<open>
  The PocketBase client over a server state \<open>'pb\<close>: \<open>getFirstListItem\<close> with its filter
  string, \<open>create\<close>, \<open>authWithPassword\<close> (identity, password; returns the token) and
  \<open>update\<close> (record id, password, passwordConfirm). Each may throw.
\<close>

record 'pb pocketbase =
  getFirstListItem :: "'pb \<Rightarrow> string \<Rightarrow> oracle_record attempt"
  create :: "'pb \<Rightarrow> create_request \<Rightarrow> oracle_record attempt \<times> 'pb"
  authWithPassword :: "'pb \<Rightarrow> string \<Rightarrow> string \<Rightarrow> string attempt"
  update :: "'pb \<Rightarrow> string \<Rightarrow> string \<Rightarrow> string \<Rightarrow> unit attempt \<times> 'pb"

record verify_request =
  address :: "string option"
  signature :: "string option"
  name :: "string option"

datatype verify_error =
    AddressAndSignatureRequired
  | NoNonceFound
  | VerificationFailed string
  | InvalidSignature
  | CreateFailed string
  | AuthFailed string

text \<open>The JSON error text and the HTTP status of each failure.\<close>

fun error_body :: "verify_error \<Rightarrow> string \<times> nat" where
  "error_body AddressAndSignatureRequired = (''address and signature required'', 400)"
| "error_body NoNonceFound = (''No nonce found. Call /nonce first'', 400)"
| "error_body (VerificationFailed m) = (''Verification failed: '' @ m, 400)"
| "error_body InvalidSignature = (''Invalid signature'', 400)"
| "error_body (CreateFailed m) = (''Create failed: '' @ m, 500)"
| "error_body (AuthFailed m) = (''Auth failed: '' @ m, 500)"

datatype verify_response =
    VerifyError verify_error
  | VerifyOk bool oracle_record string

text \<open>The object handed to \<open>create\<close> when the lookup by wallet misses.\<close>

definition createRequest :: "string \<Rightarrow> string option \<Rightarrow> create_request" where
  "createRequest a nm =
     \<lparr>cname = (if falsy nm then ''Oracle-'' @ take 6 a else the nm),
      cwallet_address = toLowerCase a,
      cpassword = toLowerCase a,
      cpasswordConfirm = toLowerCase a,
      capproved = True,
      ckarma = 0\<rparr>"

definition walletFilter :: "string \<Rightarrow> string" where
  "walletFilter a = ''wallet_address = '' @ [CHR 0x22] @ toLowerCase a @ [CHR 0x22]"

text \<open>Find or create the oracle by wallet: the error, or the record and the \<open>created\<close> flag.\<close>

definition findOrCreate ::
  "'pb pocketbase \<Rightarrow> string \<Rightarrow> string option \<Rightarrow> 'pb \<Rightarrow> (verify_error + oracle_record \<times> bool) \<times> 'pb" where
  "findOrCreate pb a nm s =
     (case getFirstListItem pb s (walletFilter a) of
        Returned orc \<Rightarrow> (Inr (orc, False), s)
      | Threw _ \<Rightarrow>
          (case create pb s (createRequest a nm) of
             (Threw m, s') \<Rightarrow> (Inl (CreateFailed m), s')
           | (Returned orc, s') \<Rightarrow> (Inr (orc, True), s')))"

text \<open>Authenticate; on failure reset the password and retry once.\<close>

definition authToken ::
  "'pb pocketbase \<Rightarrow> oracle_record \<Rightarrow> string \<Rightarrow> 'pb \<Rightarrow> (verify_error + string) \<times> 'pb" where
  "authToken pb orc a s =
     (case authWithPassword pb s (wallet_address orc) (toLowerCase a) of
        Returned token \<Rightarrow> (Inr token, s)
      | Threw _ \<Rightarrow>
          (case update pb s (oid orc) (toLowerCase a) (toLowerCase a) of
             (Threw m, s') \<Rightarrow> (Inl (AuthFailed m), s')
           | (Returned _, s') \<Rightarrow>
               (case authWithPassword pb s' (wallet_address orc) (toLowerCase a) of
                  Threw m \<Rightarrow> (Inl (AuthFailed m), s')
                | Returned token \<Rightarrow> (Inr token, s'))))"

text \<open>\<open>POST /verify\<close> over the nonce store and the PocketBase state.\<close>

definition post_verify ::
  "'pb pocketbase \<Rightarrow> runtime \<Rightarrow> verify_request \<Rightarrow> kv \<times> 'pb \<Rightarrow> verify_response \<times> (kv \<times> 'pb)" where
  "post_verify pb rt req st =
     (let store = fst st; s = snd st in
      if falsy (address req) \<or> falsy (signature req)
      then (VerifyError AddressAndSignatureRequired, st)
      else
        (let a = the (address req); sg = the (signature req) in
         case kv_get store (DateNow rt) (toLowerCase a) of
           None \<Rightarrow> (VerifyError NoNonceFound, st)
         | Some d \<Rightarrow>
             (case verifyMessage rt a (signInMessage (toISOString rt) (nonce d) (timestamp d)) sg of
                Threw m \<Rightarrow> (VerifyError (VerificationFailed m), st)
              | Returned False \<Rightarrow> (VerifyError InvalidSignature, st)
              | Returned True \<Rightarrow>
                  (let store' = kv_delete store (toLowerCase a) in
                   case findOrCreate pb a (name req) s of
                     (Inl e, s1) \<Rightarrow> (VerifyError e, (store', s1))
                   | (Inr (orc, created), s1) \<Rightarrow>
                       (case authToken pb orc a s1 of
                          (Inl e, s2) \<Rightarrow> (VerifyError e, (store', s2))
                        | (Inr token, s2) \<Rightarrow> (VerifyOk created orc token, (store', s2)))))))"

section \<open>GitHub verification through birth-issue comments (Go hooks, \<open>BindGitHubRoutes\<close>)\<close>

text \<open>
  The in-memory code storage \<open>verificationCodes\<close>: repo key to code and expiry.
  A \<open>time.Time\<close> is a number of nanoseconds.
\<close>

record stored_code =
  Code :: string
  ExpiresAt :: nat

type_synonym verificationCodes = "string \<rightharpoonup> stored_code"

definition tenMinutes :: nat where
  "tenMinutes = 10 * (60 * 1000000000)"

definition storeVerificationCode ::
  "verificationCodes \<Rightarrow> nat \<Rightarrow> string \<Rightarrow> string \<Rightarrow> verificationCodes" where
  "storeVerificationCode codes now repoKey code =
     codes(repoKey \<mapsto> \<lparr>Code = code, ExpiresAt = now + tenMinutes\<rparr>)"

text \<open>\<open>verifyStoredCode\<close> deletes an expired entry; the updated map is returned with the answer.\<close>

definition verifyStoredCode ::
  "verificationCodes \<Rightarrow> nat \<Rightarrow> string \<Rightarrow> string \<Rightarrow> bool \<times> verificationCodes" where
  "verifyStoredCode codes now repoKey code =
     (case codes repoKey of
        None \<Rightarrow> (False, codes)
      | Some stored \<Rightarrow>
          if now > ExpiresAt stored then (False, codes(repoKey := None))
          else (Code stored = code, codes))"

definition clearVerificationCode :: "verificationCodes \<Rightarrow> string \<Rightarrow> verificationCodes" where
  "clearVerificationCode codes repoKey = codes(repoKey := None)"

text \<open>
  \<open>parseIssueURL\<close>: the leftmost match of
  \<^verbatim>\<open>github\.com/([^/]+)/([^/]+)/issues/(\d+)\<close> anywhere in the string. At a given
  start the match is forced: each \<^verbatim>\<open>[^/]+\<close> is the whole run up to the next slash, and
  \<^verbatim>\<open>\d+\<close> is the longest run of digits.
\<close>

fun stripPrefix :: "string \<Rightarrow> string \<Rightarrow> string option" where
  "stripPrefix [] s = Some s"
| "stripPrefix (p # ps) [] = None"
| "stripPrefix (p # ps) (c # cs) = (if p = c then stripPrefix ps cs else None)"

definition notSlash :: "char \<Rightarrow> bool" where
  "notSlash c = (c \<noteq> CHR ''/'')"

definition isDigit :: "char \<Rightarrow> bool" where
  "isDigit c = (c \<in> set ''0123456789'')"

definition matchIssueAt :: "string \<Rightarrow> (string \<times> string \<times> string) option" where
  "matchIssueAt s =
     (case stripPrefix ''github.com/'' s of
        None \<Rightarrow> None
      | Some r1 \<Rightarrow>
          (let owner = takeWhile notSlash r1; r2 = dropWhile notSlash r1 in
           if owner = [] then None
           else
             (case stripPrefix ''/'' r2 of
                None \<Rightarrow> None
              | Some r3 \<Rightarrow>
                  (let repo = takeWhile notSlash r3; r4 = dropWhile notSlash r3 in
                   if repo = [] then None
                   else
                     (case stripPrefix ''/issues/'' r4 of
                        None \<Rightarrow> None
                      | Some r5 \<Rightarrow>
                          (let num = takeWhile isDigit r5 in
                           if num = [] then None else Some (owner, repo, num)))))))"

fun parseIssueURL :: "string \<Rightarrow> (string \<times> string \<times> string) option" where
  "parseIssueURL [] = matchIssueAt []"
| "parseIssueURL (c # cs) =
     (case matchIssueAt (c # cs) of
        Some m \<Rightarrow> Some m
      | None \<Rightarrow> parseIssueURL cs)"

declare parseIssueURL.simps [simp del]

text \<open>
  The GitHub REST API as the hooks read it: the outcome of \<open>http.Get\<close> is a transport
  error, or a status code with the body as \<open>json.Decode\<close> leaves the target struct
  (zero values where decoding fails).
\<close>

datatype 'a http_result = TransportError string | Response nat 'a

record issue_json =
  Title :: string
  Body :: string
  UserLogin :: string
  Labels :: "string list"

record comment_json =
  CommentBody :: string
  CommentLogin :: string

record IssueInfo =
  Author :: string
  OracleName :: string
  HasBirthPropsLabel :: bool

text \<open>A record of the \<open>oracles\<close> collection as the hooks set it.\<close>

record github_oracle =
  rid :: string
  rname :: string
  remail :: string
  github_username :: string
  github_repo :: string
  rapproved :: bool
  rkarma :: int

text \<open>
  What the hooks call outside themselves, over an application state \<open>'app\<close>: the two GitHub
  reads (owner, repo, issue number), the Unicode path of \<open>strings.EqualFold\<close>,
  \<open>extractOracleName\<close> (title, body), \<open>rand.Read\<close>,
  \<open>FindRecordsByFilter\<close> on \<open>github_username\<close>, \<open>Save\<close> (an error, or the saved record) and
  \<open>NewAuthToken\<close>.
\<close>

record 'app hooks_env =
  httpGetIssue :: "string \<Rightarrow> string \<Rightarrow> string \<Rightarrow> issue_json http_result"
  httpGetComments :: "string \<Rightarrow> string \<Rightarrow> string \<Rightarrow> comment_json list http_result"
  unicodeEqualFold :: "string \<Rightarrow> string \<Rightarrow> bool"
  extractOracleName :: "string \<Rightarrow> string \<Rightarrow> string"
  randRead :: "nat \<Rightarrow> nat list"
  FindRecordsByGithubUsername :: "'app \<Rightarrow> string \<Rightarrow> github_oracle list"
  Save :: "'app \<Rightarrow> github_oracle \<Rightarrow> (string + github_oracle) \<times> 'app"
  NewAuthToken :: "github_oracle \<Rightarrow> string + string"

datatype fetch_error = GetFailed string | IssueNotFound nat

text \<open>\<open>%d\<close> of a status code, and \<open>err.Error()\<close> of the two errors of \<open>fetchIssue\<close>.\<close>

function showNat :: "nat \<Rightarrow> string" where
  "showNat n =
     (if n < 10 then [''0123456789'' ! n]
      else showNat (n div 10) @ [''0123456789'' ! (n mod 10)])"
  by pat_completeness auto
termination
  by (relation "measure id") auto

declare showNat.simps [simp del]

fun errorText :: "fetch_error \<Rightarrow> string" where
  "errorText (GetFailed m) = m"
| "errorText (IssueNotFound status) = ''issue not found (status '' @ showNat status @ '')''"

definition fetchIssue ::
  "'app hooks_env \<Rightarrow> string \<Rightarrow> string \<Rightarrow> string \<Rightarrow> fetch_error + IssueInfo" where
  "fetchIssue env owner repo num =
     (case httpGetIssue env owner repo num of
        TransportError e \<Rightarrow> Inl (GetFailed e)
      | Response status issue \<Rightarrow>
          if status \<noteq> 200 then Inl (IssueNotFound status)
          else Inr \<lparr>Author = UserLogin issue,
                    OracleName = extractOracleName env (Title issue) (Body issue),
                    HasBirthPropsLabel = (''birth-props'' \<in> set (Labels issue))\<rparr>)"

text \<open>The loop of \<open>checkCommentsForCode\<close> over the decoded comments.\<close>

fun scanComments ::
  "(string \<Rightarrow> string \<Rightarrow> bool) \<Rightarrow> comment_json list \<Rightarrow> string \<Rightarrow> string \<Rightarrow> bool" where
  "scanComments unicodePath [] verifyPattern expectedAuthor = False"
| "scanComments unicodePath (c # cs) verifyPattern expectedAuthor =
     (if EqualFold unicodePath (CommentLogin c) expectedAuthor
         \<and> Contains (CommentBody c) verifyPattern
      then True
      else scanComments unicodePath cs verifyPattern expectedAuthor)"

definition checkCommentsForCode ::
  "'app hooks_env \<Rightarrow> string \<Rightarrow> string \<Rightarrow> string \<Rightarrow> string \<Rightarrow> string \<Rightarrow> string + bool" where
  "checkCommentsForCode env owner repo issueNum code expectedAuthor =
     (case httpGetComments env owner repo issueNum of
        TransportError e \<Rightarrow> Inl e
      | Response status comments \<Rightarrow>
          Inr (scanComments (unicodeEqualFold env) comments (''verify:'' @ code) expectedAuthor))"

definition findOrCreateOracleByGitHub ::
  "'app hooks_env \<Rightarrow> 'app \<Rightarrow> string \<Rightarrow> string \<Rightarrow> string
     \<Rightarrow> (string + github_oracle \<times> bool) \<times> 'app" where
  "findOrCreateOracleByGitHub env app username repo oracleName =
     (case FindRecordsByGithubUsername env app username of
        r # _ \<Rightarrow>
          (let r' = r\<lparr>github_repo := repo, rapproved := True\<rparr> in
           case Save env app r' of
             (Inl _, app') \<Rightarrow> (Inr (r', False), app')
           | (Inr saved, app') \<Rightarrow> (Inr (saved, False), app'))
      | [] \<Rightarrow>
          (let orc = \<lparr>rid = [], rname = (if oracleName = [] then username else oracleName),
                      remail = username @ ''@github.oracle'',
                      github_username = username, github_repo = repo,
                      rapproved = True, rkarma = 0\<rparr> in
           case Save env app orc of
             (Inl err, app') \<Rightarrow> (Inl err, app')
           | (Inr saved, app') \<Rightarrow> (Inr (saved, True), app')))"

definition hexDigit :: "nat \<Rightarrow> char" where
  "hexDigit n = ''0123456789abcdef'' ! (n mod 16)"

definition hexEncode :: "nat list \<Rightarrow> string" where
  "hexEncode bs = concat (map (\<lambda>b. [hexDigit (b div 16), hexDigit b]) bs)"

definition generateCode :: "'app hooks_env \<Rightarrow> string" where
  "generateCode env = hexEncode (randRead env 4)"

datatype github_response =
    BadRequest string
  | Failure string "string option"
  | Started string string
  | Verified string bool github_oracle

definition quote :: char where
  "quote = CHR 0x27"

text \<open>\<open>POST /api/auth/github/start\<close>: on success the code and the oracle name.\<close>

definition github_start ::
  "'app hooks_env \<Rightarrow> nat \<Rightarrow> string \<Rightarrow> verificationCodes \<Rightarrow> github_response \<times> verificationCodes" where
  "github_start env now issueUrl codes =
     (case parseIssueURL issueUrl of
        None \<Rightarrow> (BadRequest ''invalid GitHub issue URL'', codes)
      | Some (owner, repo, issueNum) \<Rightarrow>
          if issueNum \<noteq> ''1'' then (BadRequest ''Must be Issue #1 (birth issue)'', codes)
          else
            (case fetchIssue env owner repo issueNum of
               Inl err \<Rightarrow> (BadRequest (''Issue not found: '' @ errorText err), codes)
             | Inr issue \<Rightarrow>
                 if \<not> HasBirthPropsLabel issue
                 then (BadRequest (''Issue #1 must have '' @ [quote] @ ''birth-props''
                                     @ [quote] @ '' label''), codes)
                 else
                   (let code = generateCode env in
                    (Started code (OracleName issue),
                     storeVerificationCode codes now (owner @ ''/'' @ repo) code))))"

text \<open>
  \<open>POST /api/auth/github/verify\<close> over the code storage and the application state:
  stored code, issue author, comments, oracle record, token, and only then the code
  is cleared.
\<close>

definition github_verify ::
  "'app hooks_env \<Rightarrow> nat \<Rightarrow> string \<Rightarrow> string \<Rightarrow> verificationCodes \<times> 'app
     \<Rightarrow> github_response \<times> (verificationCodes \<times> 'app)" where
  "github_verify env now issueUrl code st =
     (case parseIssueURL issueUrl of
        None \<Rightarrow> (BadRequest ''invalid GitHub issue URL'', st)
      | Some (owner, repo, issueNum) \<Rightarrow>
          (let chk = verifyStoredCode (fst st) now (owner @ ''/'' @ repo) code;
               codes = snd chk; app = snd st in
           if \<not> fst chk
           then (Failure ''Invalid or expired code. Start again.'' None, (codes, app))
           else
             (case fetchIssue env owner repo issueNum of
                Inl _ \<Rightarrow> (BadRequest ''Failed to fetch issue'', (codes, app))
              | Inr issue \<Rightarrow>
                  (case checkCommentsForCode env owner repo issueNum code (Author issue) of
                     Inl e \<Rightarrow> (Failure (''Failed to check comments: '' @ e) None, (codes, app))
                   | Inr verified \<Rightarrow>
                       if \<not> verified
                       then (Failure (''Comment with '' @ [quote] @ ''verify:'' @ code @ [quote]
                                        @ '' not found from @'' @ Author issue)
                               (Some (''Post a comment on your issue with: verify:'' @ code)),
                             (codes, app))
                       else
                         (case findOrCreateOracleByGitHub env app (Author issue)
                                 (owner @ ''/'' @ repo) (OracleName issue) of
                            (Inl _, app') \<Rightarrow>
                              (BadRequest ''Failed to create oracle'', (codes, app'))
                          | (Inr (orc, created), app') \<Rightarrow>
                              (case NewAuthToken env orc of
                                 Inl _ \<Rightarrow>
                                   (BadRequest ''Failed to generate token'', (codes, app'))
                               | Inr token \<Rightarrow>
                                   (Verified token created orc,
                                    (clearVerificationCode codes (owner @ ''/'' @ repo),
                                     app'))))))))"

section \<open>The Merkle membership tree\<close>

text \<open>
  Home.tsx hands the leaves to \<open>StandardMerkleTree.of\<close> of the package
  \<open>@openzeppelin/merkle-tree\<close>, cuts the flat array it returns into layers for display,
  and shows proofs fetched from \<open>/api/merkle/proof\<close>. Tree construction, proof generation
  and proof verification are not among the source files, so they are modelled from the
  specification (sections 3, 4.5 and 4.6). Hash values are byte strings.
\<close>

type_synonym bytes = string

text \<open>
  Modelled from the spec: the MerkleLeaf of section 3 (walletAddress, birthIssueURL,
  issueNumber, a non-negative integer); the leaf type of the missing builder.
\<close>

record MerkleLeaf =
  walletAddress :: string
  birthIssueURL :: string
  issueNumber :: nat

text \<open>
  Modelled from the spec: the two hash functions the missing builder uses, \<open>hash\<close> on
  byte strings and \<open>domainHash\<close> on the canonical tuple (an address, a string, an
  unsigned integer). Both are parameters: nothing below depends on which functions
  they are.
\<close>

record hasher =
  hash :: "bytes \<Rightarrow> bytes"
  domainHash :: "string \<Rightarrow> string \<Rightarrow> nat \<Rightarrow> bytes"

text \<open>
  Modelled from the spec: the order in which \<open>sortedConcat\<close> sorts its two inputs, taken
  as the bytewise lexicographic order (the spec names no order; the missing builder's is
  not in the sources).
\<close>

fun lexLe :: "bytes \<Rightarrow> bytes \<Rightarrow> bool" where
  "lexLe [] ys = True"
| "lexLe (x # xs) [] = False"
| "lexLe (x # xs) (y # ys) =
     (if (of_char x :: nat) < of_char y then True
      else if (of_char x :: nat) = of_char y then lexLe xs ys
      else False)"

text \<open>
  Modelled from the spec: \<open>sortedConcat(a, b)\<close> of the missing builder, "pair hashing
  always sorts its two inputs before concatenation".
\<close>

definition sortedConcat :: "bytes \<Rightarrow> bytes \<Rightarrow> bytes" where
  "sortedConcat a b = (if lexLe a b then a @ b else b @ a)"

text \<open>
  Modelled from the spec: \<open>leafHash(leaf) = domainHash(walletAddressCanonical,
  birthIssueURL, issueNumber)\<close> of the missing builder; the canonical address is the
  lower-case one.
\<close>

definition leafHash :: "hasher \<Rightarrow> MerkleLeaf \<Rightarrow> bytes" where
  "leafHash h leaf =
     domainHash h (toLowerCase (walletAddress leaf)) (birthIssueURL leaf) (issueNumber leaf)"

text \<open>
  Modelled from the spec: \<open>internalHash(a, b) = hash(sortedConcat(a, b))\<close> of the missing
  builder.
\<close>

definition internalHash :: "hasher \<Rightarrow> bytes \<Rightarrow> bytes \<Rightarrow> bytes" where
  "internalHash h a b = hash h (sortedConcat a b)"

text \<open>
  Modelled from the spec: one step of the missing builder from a layer to its parent
  layer: neighbours are paired and hashed, and "the last unpaired node of an odd layer is
  carried up unchanged to the next layer rather than duplicated".
\<close>

fun nextLayer :: "hasher \<Rightarrow> bytes list \<Rightarrow> bytes list" where
  "nextLayer h (a # b # rest) = internalHash h a b # nextLayer h rest"
| "nextLayer h [a] = [a]"
| "nextLayer h [] = []"

text \<open>
  Modelled from the spec: the layers of the missing builder, "ordered leaf-hash layer,
  successive parent layers, single root", from the leaf layer upwards until one node is
  left.
\<close>

function buildLayers :: "hasher \<Rightarrow> bytes list \<Rightarrow> bytes list list" where
  "buildLayers h layer =
     (if length layer \<le> 1 then [layer] else layer # buildLayers h (nextLayer h layer))"
  by pat_completeness auto
termination
proof (relation "measure (\<lambda>(h, layer). length layer)")
  show "wf (measure (\<lambda>(h, layer). length layer))" by simp
next
  fix h :: hasher and layer :: "bytes list"
  assume big: "\<not> length layer \<le> 1"
  have "length (nextLayer h layer) = (length layer + 1) div 2"
    by (induction h layer rule: nextLayer.induct) auto
  then show "((h, nextLayer h layer), (h, layer)) \<in> measure (\<lambda>(h, layer). length layer)"
    using big by auto
qed

declare buildLayers.simps [simp del]

text \<open>
  Modelled from the spec: the MerkleTree that the missing \<open>build\<close> returns, "the root, the
  full set of layers, and a leaf to index map". A tree over no leaves has no root.
\<close>

record MerkleTree =
  root :: "bytes option"
  layers :: "bytes list list"
  leafIndex :: "MerkleLeaf \<rightharpoonup> nat"

text \<open>
  Modelled from the spec: \<open>build(leaves)\<close>, missing from the sources: it "orders leaves by
  issueNumber ascending", hashes each leaf and builds the layers.
\<close>

definition build :: "hasher \<Rightarrow> MerkleLeaf list \<Rightarrow> MerkleTree" where
  "build h leaves =
     (let ordered = sort_key issueNumber leaves;
          ls = buildLayers h (map (leafHash h) ordered)
      in \<lparr>root = (case last ls of [r] \<Rightarrow> Some r | _ \<Rightarrow> None),
          layers = ls,
          leafIndex = map_of (zip ordered [0 ..< length ordered])\<rparr>)"

text \<open>
  Modelled from the spec: the walk of the missing \<open>proveMembership\<close> "from the leaf's
  position to the root, collecting the sibling hash at each layer (skipping layers where
  the node was carried up with no sibling)".
\<close>

fun siblingPath :: "bytes list list \<Rightarrow> nat \<Rightarrow> bytes list" where
  "siblingPath [] i = []"
| "siblingPath [rootLayer] i = []"
| "siblingPath (layer # upper # higher) i =
     (let sibling = (if even i then i + 1 else i - 1)
      in (if sibling < length layer then [layer ! sibling] else [])
           @ siblingPath (upper # higher) (i div 2))"

text \<open>
  Modelled from the spec: \<open>proveMembership(leafIndex)\<close>, missing from the sources; an
  index outside the leaf layer has no proof.
\<close>

definition proveMembership :: "MerkleTree \<Rightarrow> nat \<Rightarrow> bytes list option" where
  "proveMembership t i =
     (case layers t of
        [] \<Rightarrow> None
      | bottom # _ \<Rightarrow> if i < length bottom then Some (siblingPath (layers t) i) else None)"

text \<open>
  Modelled from the spec: \<open>verifyMembership(leaf, proof, root)\<close>, missing from the sources:
  it "recomputes leafHash(leaf), folds each proof element in order through internalHash,
  and compares the final value to root".
\<close>

definition verifyMembership :: "hasher \<Rightarrow> MerkleLeaf \<Rightarrow> bytes list \<Rightarrow> bytes \<Rightarrow> bool" where
  "verifyMembership h leaf proof r = (foldl (internalHash h) (leafHash h leaf) proof = r)"

section \<open>The address format the specification asks for\<close>

text \<open>
  The spec's "syntactically well-formed account identifier": \<open>0x\<close> and forty hexadecimal
  digits (a 20-byte address). The worker has no such check; the predicate states what
  the spec asks for.
\<close>

definition isHexDigit :: "char \<Rightarrow> bool" where
  "isHexDigit c = (c \<in> set ''0123456789abcdefABCDEF'')"

definition spec_wellFormedAddress :: "string \<Rightarrow> bool" where
  "spec_wellFormedAddress a =
     (length a = 42 \<and> take 2 a = ''0x'' \<and> list_all isHexDigit (drop 2 a))"

section \<open>Concrete inputs: a runtime, an in-memory PocketBase, a GitHub world, a hasher\<close>

definition demo_runtime :: runtime where
  "demo_runtime =
     \<lparr>DateNow = 1700000000000,
      randomUUID = ''1b9d6bcd-bbfd-4b2d-9b5d-ab8dfbbd4bed'',
      toISOString = (\<lambda>t. ''2023-11-14T22:13:20.000Z''),
      verifyMessage = (\<lambda>a m sg. if length sg < 4 then Threw ''invalid signature length''
                                  else Returned (sg = ''0xgood''))\<rparr>"

definition demo_address :: string where
  "demo_address = ''0x52908400098527886E0F7030069857D2E4169EE7''"

definition memPB :: "(oracle_record \<times> string) list pocketbase" where
  "memPB =
     \<lparr>getFirstListItem = (\<lambda>s f.
        case find (\<lambda>rp. walletFilter (wallet_address (fst rp)) = f) s of
          None \<Rightarrow> Threw ''not found''
        | Some rp \<Rightarrow> Returned (fst rp)),
      create = (\<lambda>s c.
        if cpassword c \<noteq> cpasswordConfirm c then (Threw ''passwords differ'', s)
        else (let r = \<lparr>oid = ''rec'' @ replicate (length s) (CHR ''i''), oname = cname c,
                        wallet_address = cwallet_address c, approved = capproved c,
                        karma = ckarma c\<rparr>
              in (Returned r, s @ [(r, cpassword c)]))),
      authWithPassword = (\<lambda>s ident pw.
        case find (\<lambda>rp. wallet_address (fst rp) = ident \<and> snd rp = pw) s of
          None \<Rightarrow> Threw ''Failed to authenticate.''
        | Some rp \<Rightarrow> Returned (''token-'' @ oid (fst rp))),
      update = (\<lambda>s i pw pwc.
        if pw \<noteq> pwc then (Threw ''passwords differ'', s)
        else (Returned (), map (\<lambda>rp. if oid (fst rp) = i then (fst rp, pw) else rp) s))\<rparr>"

text \<open>The same PocketBase, except that every \<open>create\<close> is refused.\<close>

definition refusingPB :: "(oracle_record \<times> string) list pocketbase" where
  "refusingPB = memPB\<lparr>create := (\<lambda>s c. (Threw ''Failed to create record.'', s))\<rparr>"

text \<open>
  A small GitHub world: \<open>alice/oracle\<close>, whose birth issue by \<open>alice\<close> has no comments and
  whose issue 2 was opened and commented by \<open>mallory\<close>; and \<open>bob/oracle-b\<close>, whose birth
  issue by \<open>Bob-Dev\<close> has a comment by \<open>eve\<close> and one by \<open>bob-dev\<close>.
\<close>

definition demo_issues :: "string \<Rightarrow> string \<Rightarrow> string \<Rightarrow> issue_json http_result" where
  "demo_issues owner repo num =
     (if owner = ''alice'' \<and> repo = ''oracle'' \<and> num = ''1'' then
        Response 200 \<lparr>Title = ''Birth'', Body = [], UserLogin = ''alice'',
                      Labels = [''birth-props'']\<rparr>
      else if owner = ''alice'' \<and> repo = ''oracle'' \<and> num = ''2'' then
        Response 200 \<lparr>Title = ''Question'', Body = [], UserLogin = ''mallory'', Labels = []\<rparr>
      else if owner = ''bob'' \<and> repo = ''oracle-b'' \<and> num = ''1'' then
        Response 200 \<lparr>Title = ''Birth'', Body = [], UserLogin = ''Bob-Dev'',
                      Labels = [''birth-props'']\<rparr>
      else Response 404 \<lparr>Title = [], Body = [], UserLogin = [], Labels = []\<rparr>)"

definition demo_comments :: "string \<Rightarrow> string \<Rightarrow> string \<Rightarrow> comment_json list http_result" where
  "demo_comments owner repo num =
     (if owner = ''alice'' \<and> repo = ''oracle'' \<and> num = ''1'' then Response 200 []
      else if owner = ''alice'' \<and> repo = ''oracle'' \<and> num = ''2'' then
        Response 200 [\<lparr>CommentBody = ''verify:deadbeef'', CommentLogin = ''mallory''\<rparr>]
      else if owner = ''bob'' \<and> repo = ''oracle-b'' \<and> num = ''1'' then
        Response 200 [\<lparr>CommentBody = ''verify:deadbeef'', CommentLogin = ''eve''\<rparr>,
                      \<lparr>CommentBody = ''Here it is: verify:deadbeef, thanks'',
                       CommentLogin = ''bob-dev''\<rparr>]
      else Response 404 [])"

definition demo_hooks :: "github_oracle list hooks_env" where
  "demo_hooks =
     \<lparr>httpGetIssue = demo_issues,
      httpGetComments = demo_comments,
      unicodeEqualFold = (\<lambda>s t. s = t),
      extractOracleName = (\<lambda>title body. []),
      randRead = (\<lambda>n. take n [222, 173, 190, 239]),
      FindRecordsByGithubUsername = (\<lambda>app u. filter (\<lambda>r. github_username r = u) app),
      Save = (\<lambda>app r.
        let saved = (if rid r = [] then r\<lparr>rid := ''rec'' @ showNat (length app)\<rparr> else r)
        in (Inr saved, filter (\<lambda>x. rid x \<noteq> rid saved) app @ [saved])),
      NewAuthToken = (\<lambda>r. Inr (''token-'' @ rid r))\<rparr>"

definition demo_store :: kv where
  "demo_store =
     [''0x52908400098527886e0f7030069857d2e4169ee7'' \<mapsto>
        (\<lparr>nonce = ''1b9d6bcd'', timestamp = 1700000000000\<rparr>, 1700000300000)]"

definition demo_request :: "string \<Rightarrow> verify_request" where
  "demo_request sg = \<lparr>address = Some demo_address, signature = Some sg, name = None\<rparr>"

definition demo_oracle :: oracle_record where
  "demo_oracle =
     \<lparr>oid = ''rec'', oname = ''Oracle-0x5290'',
      wallet_address = ''0x52908400098527886e0f7030069857d2e4169ee7'',
      approved = True, karma = 0\<rparr>"

text \<open>
  A hasher that writes out what it was given, and three leaves listed out of issue
  order.
\<close>

definition demo_hasher :: hasher where
  "demo_hasher =
     \<lparr>hash = (\<lambda>bs. ''H('' @ bs @ '')''),
      domainHash = (\<lambda>wallet url n. ''L'' @ showNat n)\<rparr>"

definition demo_leaf :: "nat \<Rightarrow> MerkleLeaf" where
  "demo_leaf n =
     \<lparr>walletAddress = demo_address,
      birthIssueURL = ''https://github.com/alice/oracle/issues/'' @ showNat n,
      issueNumber = n\<rparr>"

definition demo_leaves :: "MerkleLeaf list" where
  "demo_leaves = [demo_leaf 9, demo_leaf 4, demo_leaf 7]"

section \<open>Properties of the string helpers\<close>

lemma HasPrefix_iff: "HasPrefix s p = (\<exists>r. s = p @ r)"
  by (induction s p rule: HasPrefix.induct) auto

lemma Contains_iff: "Contains s sub = (\<exists>a b. s = a @ sub @ b)"
proof (induction s)
  case Nil
  then show ?case by (cases sub) (auto simp: HasPrefix_iff)
next
  case (Cons c cs)
  show ?case
  proof
    assume "Contains (c # cs) sub"
    then consider "HasPrefix (c # cs) sub" | "Contains cs sub" by auto
    then show "\<exists>a b. c # cs = a @ sub @ b"
    proof cases
      case 1
      then obtain r where "c # cs = sub @ r" by (auto simp: HasPrefix_iff)
      then have "c # cs = [] @ sub @ r" by simp
      then show ?thesis by blast
    next
      case 2
      then obtain a b where "cs = a @ sub @ b" using Cons.IH by auto
      then have "c # cs = (c # a) @ sub @ b" by simp
      then show ?thesis by blast
    qed
  next
    assume "\<exists>a b. c # cs = a @ sub @ b"
    then obtain a b where ab: "c # cs = a @ sub @ b" by auto
    show "Contains (c # cs) sub"
    proof (cases a)
      case Nil
      then have "HasPrefix (c # cs) sub" using ab by (auto simp: HasPrefix_iff)
      then show ?thesis by simp
    next
      case (Cons x xs)
      then have "cs = xs @ sub @ b" using ab by simp
      then have "Contains cs sub" using Cons.IH by blast
      then show ?thesis by simp
    qed
  qed
qed

lemma Contains_mid: "Contains (a @ sub @ b) sub"
  by (auto simp: Contains_iff)

text \<open>
  On ASCII strings \<open>strings.EqualFold\<close> is equality up to the case of the letters, whatever
  the Unicode path does.
\<close>

lemma of_char_toLowerChar:
  "(of_char (toLowerChar c) :: nat)
     = (if 65 \<le> (of_char c :: nat) \<and> (of_char c :: nat) \<le> 90 then of_char c + 32 else of_char c)"
  by (simp add: toLowerChar_def Let_def)

lemma toLowerChar_eq_iff:
  assumes "(of_char x :: nat) < 128" "(of_char y :: nat) < 128"
  shows "(toLowerChar x = toLowerChar y)
           = (y = x \<or> (65 \<le> min (of_char x :: nat) (of_char y)
                         \<and> min (of_char x :: nat) (of_char y) \<le> 90
                         \<and> max (of_char x :: nat) (of_char y) = min (of_char x) (of_char y) + 32))"
proof -
  have "(toLowerChar x = toLowerChar y)
          = ((of_char (toLowerChar x) :: nat) = of_char (toLowerChar y))"
    by simp
  also have "\<dots> = (y = x \<or> (65 \<le> min (of_char x :: nat) (of_char y)
                         \<and> min (of_char x :: nat) (of_char y) \<le> 90
                         \<and> max (of_char x :: nat) (of_char y) = min (of_char x) (of_char y) + 32))"
  proof -
    have e: "(y = x) = ((of_char y :: nat) = of_char x)" by simp
    show ?thesis unfolding of_char_toLowerChar e using assms by (auto simp: min_def max_def)
  qed
  finally show ?thesis .
qed

lemma EqualFold_ASCII:
  "isASCII s \<Longrightarrow> isASCII t \<Longrightarrow> EqualFold u s t = (toLowerCase s = toLowerCase t)"
proof (induction u s t rule: EqualFold.induct)
  case (4 u sr s tr t)
  have a: "(of_char sr :: nat) < 128" "(of_char tr :: nat) < 128"
    using "4.prems" by (simp_all add: isASCII_def)
  then have na: "\<not> ((of_char sr :: nat) \<ge> 128 \<or> (of_char tr :: nat) \<ge> 128)" by simp
  have r: "isASCII s" "isASCII t" using "4.prems" by (simp_all add: isASCII_def)
  have c: "(toLowerChar sr = toLowerChar tr)
           = (tr = sr \<or> (65 \<le> min (of_char sr :: nat) (of_char tr)
                         \<and> min (of_char sr :: nat) (of_char tr) \<le> 90
                         \<and> max (of_char sr :: nat) (of_char tr) = min (of_char sr) (of_char tr) + 32))"
    using a by (rule toLowerChar_eq_iff)
  show ?case
  proof (cases "tr = sr")
    case True
    have "EqualFold u s t = (toLowerCase s = toLowerCase t)"
      using "4.IH"(1) [OF na True r] .
    then show ?thesis using na True by (simp add: toLowerCase_def)
  next
    case False
    show ?thesis
    proof (cases "65 \<le> min (of_char sr :: nat) (of_char tr)
                  \<and> min (of_char sr :: nat) (of_char tr) \<le> 90
                  \<and> max (of_char sr :: nat) (of_char tr) = min (of_char sr) (of_char tr) + 32")
      case True
      have l: "toLowerChar sr = toLowerChar tr" using c True by simp
      have "EqualFold u s t = (toLowerCase s = toLowerCase t)"
        using "4.IH"(2) [OF na False True r] .
      moreover have "EqualFold u (sr # s) (tr # t) = EqualFold u s t"
        using na False True by simp
      ultimately show ?thesis using l by (simp add: toLowerCase_def)
    next
      case no: False
      have l: "toLowerChar sr \<noteq> toLowerChar tr" using c False no by simp
      have "EqualFold u (sr # s) (tr # t) = False"
        using na False no by auto
      then show ?thesis using l by (simp add: toLowerCase_def)
    qed
  qed
qed (simp_all add: toLowerCase_def)

section \<open>Properties of the allow-list matcher\<close>

lemma matchPattern_exact:
  "pattern = [] \<or> last pattern \<noteq> CHR ''*'' \<Longrightarrow> matchPattern repo pattern = (repo = pattern)"
  by (auto simp: matchPattern_def last_conv_nth)

lemma matchPattern_wildcard:
  "matchPattern repo (prefix @ ''*'') = (\<exists>rest. repo = prefix @ rest)"
proof -
  have "matchPattern repo (prefix @ ''*'') =
          (length prefix \<le> length repo \<and> take (length prefix) repo = prefix)"
    by (simp add: matchPattern_def nth_append)
  also have "\<dots> = (\<exists>rest. repo = prefix @ rest)"
  proof
    assume "length prefix \<le> length repo \<and> take (length prefix) repo = prefix"
    then have "repo = prefix @ drop (length prefix) repo"
      by (metis append_take_drop_id)
    then show "\<exists>rest. repo = prefix @ rest" ..
  next
    assume "\<exists>rest. repo = prefix @ rest"
    then show "length prefix \<le> length repo \<and> take (length prefix) repo = prefix"
      by auto
  qed
  finally show ?thesis .
qed

text \<open>
  C7. The pattern \<open>org/*\<close> matches \<open>org/repo-a\<close> and \<open>org/repo-b\<close> and does not match
  \<open>other/repo-a\<close>; in general it matches exactly the repo strings that start with
  \<open>org/\<close>. The pattern \<open>org/repo-a\<close> matches a repo string exactly when the string is
  \<open>org/repo-a\<close>. The same holds through \<open>matchesAnyPattern\<close> on the one-pattern list.
\<close>

theorem allowlist_matcher_examples:
  "matchPattern ''org/repo-a'' ''org/*''
   \<and> matchPattern ''org/repo-b'' ''org/*''
   \<and> \<not> matchPattern ''other/repo-a'' ''org/*''
   \<and> (\<forall>repo. matchPattern repo ''org/*'' = (\<exists>rest. repo = ''org/'' @ rest))
   \<and> (\<forall>repo. matchPattern repo ''org/repo-a'' = (repo = ''org/repo-a''))
   \<and> (\<forall>repo. matchesAnyPattern repo [''org/*''] = (\<exists>rest. repo = ''org/'' @ rest))
   \<and> (\<forall>repo. matchesAnyPattern repo [''org/repo-a''] = (repo = ''org/repo-a''))"
proof -
  have w: "\<And>repo. matchPattern repo ''org/*'' = (\<exists>rest. repo = ''org/'' @ rest)"
    using matchPattern_wildcard [of _ "''org/''"] by simp
  have e: "\<And>repo. matchPattern repo ''org/repo-a'' = (repo = ''org/repo-a'')"
    by (rule matchPattern_exact) simp
  have a: "matchPattern ''org/repo-a'' ''org/*''" by (simp add: w)
  have b: "matchPattern ''org/repo-b'' ''org/*''" by (simp add: w)
  have c: "\<not> matchPattern ''other/repo-a'' ''org/*''" by (simp add: w)
  show ?thesis using a b c w e by simp
qed


section \<open>Nonce issuance\<close>

lemma toLowerCase_hello: "toLowerCase ''hello'' = ''hello''"
  by (simp add: toLowerCase_def toLowerChar_def)

lemma toLowerCase_demo_address:
  "toLowerCase demo_address = ''0x52908400098527886e0f7030069857d2e4169ee7''"
  by code_simp

lemma demo_address_nonempty: "demo_address \<noteq> []"
  by (simp add: demo_address_def)

lemma demo_store_issued:
  "snd (post_nonce demo_runtime (Some demo_address) Map.empty) = demo_store"
  by (simp add: post_nonce_def Let_def kv_put_def toLowerCase_demo_address demo_store_def
      demo_runtime_def demo_address_nonempty)

text \<open>
  C8, as the spec states it, fails: the string \<open>hello\<close> is not a well-formed account
  identifier, and \<open>POST /nonce\<close> answers it with a nonce and stores a challenge under it.
\<close>

theorem nonce_accepts_malformed_address:
  "\<not> spec_wellFormedAddress ''hello''
   \<and> fst (post_nonce demo_runtime (Some ''hello'') Map.empty)
       = NonceOk ''1b9d6bcd'' (signInMessage (\<lambda>t. ''2023-11-14T22:13:20.000Z'') ''1b9d6bcd'' 1700000000000)
   \<and> snd (post_nonce demo_runtime (Some ''hello'') Map.empty) ''hello''
       = Some (\<lparr>nonce = ''1b9d6bcd'', timestamp = 1700000000000\<rparr>, 1700000300000)"
  by (simp add: spec_wellFormedAddress_def post_nonce_def demo_runtime_def kv_put_def
      toLowerCase_hello Let_def)

text \<open>
  C8, amended. \<open>POST /nonce\<close> rejects exactly the missing or empty address, with
  \<open>address required\<close> (status 400) and the store unchanged; every other address string,
  well-formed or not, is answered with a nonce and the sign-in message, and the challenge
  is stored under the lower-cased address with a lifetime of 300 seconds.
\<close>

theorem nonce_rejects_only_missing_address:
  "(falsy addr \<longrightarrow> post_nonce rt addr store = (NonceError ''address required'' 400, store))
   \<and> (\<not> falsy addr \<longrightarrow>
        fst (post_nonce rt addr store)
          = NonceOk (take 8 (randomUUID rt))
              (signInMessage (toISOString rt) (take 8 (randomUUID rt)) (DateNow rt))
        \<and> snd (post_nonce rt addr store) (toLowerCase (the addr))
          = Some (\<lparr>nonce = take 8 (randomUUID rt), timestamp = DateNow rt\<rparr>,
                  DateNow rt + 300000))"
  by (simp add: post_nonce_def kv_put_def Let_def)

theorem nonce_rejects_only_missing_address_witness:
  "falsy None
   \<and> post_nonce demo_runtime None Map.empty = (NonceError ''address required'' 400, Map.empty)
   \<and> \<not> falsy (Some ''hello'')
   \<and> snd (post_nonce demo_runtime (Some ''hello'') Map.empty) (toLowerCase ''hello'')
       = Some (\<lparr>nonce = take 8 (randomUUID demo_runtime), timestamp = DateNow demo_runtime\<rparr>,
               DateNow demo_runtime + 300000)"
  using nonce_rejects_only_missing_address [of None demo_runtime Map.empty]
        nonce_rejects_only_missing_address [of "Some ''hello''" demo_runtime Map.empty]
  by simp

text \<open>
  C9, as the spec states it, fails: the message issued for the address
  \<open>0x52908400098527886E0F7030069857D2E4169EE7\<close> contains that address in neither
  spelling.
\<close>

theorem nonce_message_omits_address:
  "fst (post_nonce demo_runtime (Some demo_address) Map.empty)
     = NonceOk ''1b9d6bcd''
         (signInMessage (\<lambda>t. ''2023-11-14T22:13:20.000Z'') ''1b9d6bcd'' 1700000000000)
   \<and> \<not> Contains (signInMessage (\<lambda>t. ''2023-11-14T22:13:20.000Z'') ''1b9d6bcd'' 1700000000000)
           demo_address
   \<and> \<not> Contains (signInMessage (\<lambda>t. ''2023-11-14T22:13:20.000Z'') ''1b9d6bcd'' 1700000000000)
           (toLowerCase demo_address)"
proof -
  have m: "signInMessage (\<lambda>t. ''2023-11-14T22:13:20.000Z'') ''1b9d6bcd'' 1700000000000
             = ''Sign in to OracleNet'' @ [CHR 0x0A, CHR 0x0A] @ ''Nonce: 1b9d6bcd'' @ [CHR 0x0A]
                 @ ''Timestamp: 2023-11-14T22:13:20.000Z''"
    by (simp add: signInMessage_def newline_def)
  have a: "fst (post_nonce demo_runtime (Some demo_address) Map.empty)
     = NonceOk ''1b9d6bcd''
         (signInMessage (\<lambda>t. ''2023-11-14T22:13:20.000Z'') ''1b9d6bcd'' 1700000000000)"
    by (simp add: post_nonce_def Let_def demo_address_nonempty)
       (simp add: demo_runtime_def)
  have b: "\<not> Contains (signInMessage (\<lambda>t. ''2023-11-14T22:13:20.000Z'') ''1b9d6bcd'' 1700000000000)
           demo_address"
    unfolding m by (simp add: demo_address_def)
  have c: "\<not> Contains (signInMessage (\<lambda>t. ''2023-11-14T22:13:20.000Z'') ''1b9d6bcd'' 1700000000000)
           (toLowerCase demo_address)"
    unfolding m toLowerCase_demo_address by simp
  show ?thesis using a b c by simp
qed

lemma signInMessage_contains:
  "Contains (signInMessage f n t) ''Sign in to OracleNet''
   \<and> Contains (signInMessage f n t) n
   \<and> Contains (signInMessage f n t) (f t)"
proof -
  have 1: "Contains (signInMessage f n t) ''Sign in to OracleNet''"
    unfolding signInMessage_def
    using Contains_mid [of "[]" "''Sign in to OracleNet''"] by simp
  have 2: "Contains (signInMessage f n t) n"
    unfolding signInMessage_def Contains_iff
    by (rule exI [of _ "''Sign in to OracleNet'' @ [newline, newline] @ ''Nonce: ''"],
        rule exI [of _ "[newline] @ ''Timestamp: '' @ f t"]) simp
  have 3: "Contains (signInMessage f n t) (f t)"
    unfolding signInMessage_def Contains_iff
    by (rule exI [of _ "''Sign in to OracleNet'' @ [newline, newline] @ ''Nonce: '' @ n
                         @ [newline] @ ''Timestamp: ''"],
        rule exI [of _ "[]"]) simp
  show ?thesis using 1 2 3 by simp
qed

text \<open>
  C9, amended. For every issued nonce the returned message is the fixed template: it
  embeds the statement \<open>Sign in to OracleNet\<close>, the nonce (the first eight characters
  of the UUID) and the issuance timestamp in ISO form, and nothing else: the same runtime
  gives the same message for every other address and store. The handler reads no domain
  and no chain identifier.
\<close>

theorem nonce_message_contents:
  assumes "\<not> falsy addr"
  shows "fst (post_nonce rt addr store)
           = NonceOk (take 8 (randomUUID rt))
               (signInMessage (toISOString rt) (take 8 (randomUUID rt)) (DateNow rt))
         \<and> Contains (signInMessage (toISOString rt) (take 8 (randomUUID rt)) (DateNow rt))
              ''Sign in to OracleNet''
         \<and> Contains (signInMessage (toISOString rt) (take 8 (randomUUID rt)) (DateNow rt))
              (take 8 (randomUUID rt))
         \<and> Contains (signInMessage (toISOString rt) (take 8 (randomUUID rt)) (DateNow rt))
              (toISOString rt (DateNow rt))
         \<and> (\<not> falsy addr2 \<longrightarrow>
               fst (post_nonce rt addr2 store2) = fst (post_nonce rt addr store))"
proof -
  have r: "\<And>a st. \<not> falsy a \<Longrightarrow> fst (post_nonce rt a st)
           = NonceOk (take 8 (randomUUID rt))
               (signInMessage (toISOString rt) (take 8 (randomUUID rt)) (DateNow rt))"
    by (simp add: post_nonce_def Let_def)
  show ?thesis
    using r [OF assms] r [of addr2 store2] signInMessage_contains by simp
qed

theorem nonce_message_contents_witness:
  "\<not> falsy (Some demo_address)
   \<and> Contains (signInMessage (toISOString demo_runtime) (take 8 (randomUUID demo_runtime))
         (DateNow demo_runtime)) (take 8 (randomUUID demo_runtime))
   \<and> fst (post_nonce demo_runtime (Some ''hello'') Map.empty)
       = fst (post_nonce demo_runtime (Some demo_address) Map.empty)"
proof -
  have nf: "\<not> falsy (Some demo_address)" by (simp add: demo_address_nonempty)
  have nh: "\<not> falsy (Some ''hello'')" by simp
  show ?thesis
    using nonce_message_contents [OF nf, of demo_runtime Map.empty "Some ''hello''" Map.empty] nf nh
    by blast
qed

section \<open>Wallet verification and the nonce store\<close>

lemma verify_success_shape:
  assumes "post_verify pb rt req (store, s) = (VerifyOk created orc token, (store', s'))"
  shows "\<not> falsy (address req) \<and> \<not> falsy (signature req)
         \<and> (\<exists>d. kv_get store (DateNow rt) (toLowerCase (the (address req))) = Some d
                \<and> verifyMessage rt (the (address req))
                     (signInMessage (toISOString rt) (nonce d) (timestamp d))
                     (the (signature req)) = Returned True)
         \<and> store' = kv_delete store (toLowerCase (the (address req)))"
  using assms
  by (auto simp: post_verify_def Let_def
      split: option.splits attempt.splits bool.splits prod.splits sum.splits if_splits)

lemma kv_get_deleted: "kv_get (kv_delete store k) now k = None"
  by (simp add: kv_get_def kv_delete_def)

lemma verify_without_nonce:
  assumes "\<not> falsy (address req)" "\<not> falsy (signature req)"
    and "kv_get store (DateNow rt) (toLowerCase (the (address req))) = None"
  shows "post_verify pb rt req (store, s) = (VerifyError NoNonceFound, (store, s))"
  using assms by (simp add: post_verify_def Let_def)

lemma demo_findOrCreate:
  "findOrCreate memPB demo_address None []
     = (Inr (demo_oracle, True),
        [(demo_oracle, ''0x52908400098527886e0f7030069857d2e4169ee7'')])"
  by (simp add: findOrCreate_def memPB_def createRequest_def toLowerCase_demo_address
      demo_oracle_def Let_def) (simp add: demo_address_def)

lemma demo_authToken:
  "authToken memPB demo_oracle demo_address
       [(demo_oracle, ''0x52908400098527886e0f7030069857d2e4169ee7'')]
     = (Inr ''token-rec'', [(demo_oracle, ''0x52908400098527886e0f7030069857d2e4169ee7'')])"
  by (simp add: authToken_def memPB_def toLowerCase_demo_address)
     (simp add: demo_oracle_def)

lemma demo_verify_good:
  "post_verify memPB demo_runtime (demo_request ''0xgood'') (demo_store, [])
     = (VerifyOk True demo_oracle ''token-rec'',
        (kv_delete demo_store (toLowerCase demo_address),
         [(demo_oracle, ''0x52908400098527886e0f7030069857d2e4169ee7'')]))"
proof -
  have g: "kv_get demo_store (DateNow demo_runtime) (toLowerCase demo_address)
             = Some \<lparr>nonce = ''1b9d6bcd'', timestamp = 1700000000000\<rparr>"
    by (simp add: kv_get_def demo_store_def toLowerCase_demo_address demo_runtime_def)
  have v: "\<And>m. verifyMessage demo_runtime demo_address m ''0xgood'' = Returned True"
    by (simp add: demo_runtime_def)
  show ?thesis
    by (simp add: post_verify_def demo_request_def g v demo_findOrCreate demo_authToken
        demo_address_nonempty)
qed

text \<open>
  C1. When \<open>POST /verify\<close> succeeds, a challenge was stored for the lower-cased address,
  the resulting store is the old one with that key deleted, no later lookup of the key
  finds a challenge, and a second \<open>POST /verify\<close> with the same request on the resulting
  store (whatever the runtime and the PocketBase state) fails with
  \<open>No nonce found. Call /nonce first\<close> and changes nothing.
\<close>

theorem verify_consumes_nonce:
  assumes "post_verify pb rt req (store, s) = (VerifyOk created orc token, (store', s'))"
  shows "(\<exists>d. kv_get store (DateNow rt) (toLowerCase (the (address req))) = Some d)
         \<and> store' = kv_delete store (toLowerCase (the (address req)))
         \<and> kv_get store' now (toLowerCase (the (address req))) = None
         \<and> post_verify pb2 rt2 req (store', s2) = (VerifyError NoNonceFound, (store', s2))"
proof -
  note sh = verify_success_shape [OF assms]
  have del: "store' = kv_delete store (toLowerCase (the (address req)))"
    using sh by simp
  have gone: "\<And>t. kv_get store' t (toLowerCase (the (address req))) = None"
    unfolding del by (rule kv_get_deleted)
  have again: "post_verify pb2 rt2 req (store', s2) = (VerifyError NoNonceFound, (store', s2))"
    using sh gone by (intro verify_without_nonce) auto
  show ?thesis using sh del gone [of now] again by auto
qed

theorem verify_consumes_nonce_witness:
  "post_verify memPB demo_runtime (demo_request ''0xgood'') (demo_store, [])
     = (VerifyOk True demo_oracle ''token-rec'',
        (kv_delete demo_store (toLowerCase demo_address),
         [(demo_oracle, ''0x52908400098527886e0f7030069857d2e4169ee7'')]))
   \<and> post_verify memPB demo_runtime (demo_request ''0xgood'')
        (kv_delete demo_store (toLowerCase demo_address),
         [(demo_oracle, ''0x52908400098527886e0f7030069857d2e4169ee7'')])
     = (VerifyError NoNonceFound,
        (kv_delete demo_store (toLowerCase demo_address),
         [(demo_oracle, ''0x52908400098527886e0f7030069857d2e4169ee7'')]))"
proof -
  note w = verify_consumes_nonce [OF demo_verify_good, of 0 memPB demo_runtime
      "[(demo_oracle, ''0x52908400098527886e0f7030069857d2e4169ee7'')]"]
  have again: "post_verify memPB demo_runtime (demo_request ''0xgood'')
        (kv_delete demo_store (toLowerCase demo_address),
         [(demo_oracle, ''0x52908400098527886e0f7030069857d2e4169ee7'')])
     = (VerifyError NoNonceFound,
        (kv_delete demo_store (toLowerCase demo_address),
         [(demo_oracle, ''0x52908400098527886e0f7030069857d2e4169ee7'')]))"
    using w by blast
  show ?thesis using demo_verify_good again by (rule conjI)
qed

lemma demo_verify_bad:
  "post_verify memPB demo_runtime (demo_request ''0xbad1'') (demo_store, [])
     = (VerifyError InvalidSignature, (demo_store, []))"
proof -
  have g: "kv_get demo_store (DateNow demo_runtime) (toLowerCase demo_address)
             = Some \<lparr>nonce = ''1b9d6bcd'', timestamp = 1700000000000\<rparr>"
    by (simp add: kv_get_def demo_store_def toLowerCase_demo_address demo_runtime_def)
  have v: "\<And>m. verifyMessage demo_runtime demo_address m ''0xbad1'' = Returned False"
    by (simp add: demo_runtime_def)
  show ?thesis
    by (simp add: post_verify_def demo_request_def g v demo_address_nonempty)
qed

lemma demo_store_changes:
  "kv_delete demo_store (toLowerCase demo_address) \<noteq> demo_store"
proof
  assume "kv_delete demo_store (toLowerCase demo_address) = demo_store"
  then have "kv_delete demo_store (toLowerCase demo_address) (toLowerCase demo_address)
               = demo_store (toLowerCase demo_address)"
    by simp
  then show False
    by (simp add: kv_delete_def demo_store_def toLowerCase_demo_address)
qed

lemma demo_challenge:
  "kv_get demo_store (DateNow demo_runtime) (toLowerCase demo_address)
     = Some \<lparr>nonce = ''1b9d6bcd'', timestamp = 1700000000000\<rparr>"
  by (simp add: kv_get_def demo_store_def toLowerCase_demo_address demo_runtime_def)

lemma demo_verify_refused:
  "post_verify refusingPB demo_runtime (demo_request ''0xgood'') (demo_store, [])
     = (VerifyError (CreateFailed ''Failed to create record.''),
        (kv_delete demo_store (toLowerCase demo_address), []))"
proof -
  have v: "\<And>m. verifyMessage demo_runtime demo_address m ''0xgood'' = Returned True"
    by (simp add: demo_runtime_def)
  have f: "findOrCreate refusingPB demo_address None []
             = (Inl (CreateFailed ''Failed to create record.''), [])"
    by (simp add: findOrCreate_def refusingPB_def memPB_def)
  show ?thesis
    by (simp add: post_verify_def demo_request_def demo_challenge v f demo_address_nonempty)
qed

text \<open>
  C6, as the spec states it, fails: here the signature is valid and PocketBase refuses
  the \<open>create\<close>. The call fails with \<open>Create failed\<close> (status 500), the challenge that was
  stored is deleted, and the retry with the same signature finds no nonce.
\<close>

theorem verify_failure_consumes_nonce:
  "kv_get demo_store (DateNow demo_runtime) (toLowerCase demo_address)
     = Some \<lparr>nonce = ''1b9d6bcd'', timestamp = 1700000000000\<rparr>
   \<and> post_verify refusingPB demo_runtime (demo_request ''0xgood'') (demo_store, [])
       = (VerifyError (CreateFailed ''Failed to create record.''),
          (kv_delete demo_store (toLowerCase demo_address), []))
   \<and> kv_delete demo_store (toLowerCase demo_address) \<noteq> demo_store
   \<and> kv_get (kv_delete demo_store (toLowerCase demo_address)) (DateNow demo_runtime)
        (toLowerCase demo_address) = None
   \<and> post_verify memPB demo_runtime (demo_request ''0xgood'')
        (kv_delete demo_store (toLowerCase demo_address), [])
       = (VerifyError NoNonceFound, (kv_delete demo_store (toLowerCase demo_address), []))"
proof -
  have retry: "post_verify memPB demo_runtime (demo_request ''0xgood'')
        (kv_delete demo_store (toLowerCase demo_address), [])
       = (VerifyError NoNonceFound, (kv_delete demo_store (toLowerCase demo_address), []))"
    by (rule verify_without_nonce)
       (simp_all add: demo_request_def demo_address_nonempty kv_get_deleted)
  show ?thesis
    by (intro conjI)
       (rule demo_challenge, rule demo_verify_refused, rule demo_store_changes,
        rule kv_get_deleted, rule retry)
qed

text \<open>
  C6, amended. A \<open>POST /verify\<close> that fails because the address or signature is missing,
  because no challenge is stored, because signature recovery throws, or because the
  signature is invalid leaves the nonce store and the PocketBase state as they were, so
  the same challenge is still there for a retry. The challenge is deleted when the
  signature check returns true, before the record is looked up or created and the token
  issued: every call that answers \<open>Create failed\<close>, \<open>Auth failed\<close> (both status 500) or
  success has deleted the key of the lower-cased address, these are exactly the calls
  whose signature check returned true, and the store changes in no other way.
\<close>

theorem verify_deletes_nonce_at_signature_check:
  assumes "post_verify pb rt req (store, s) = (resp, (store', s'))"
  shows "(resp = VerifyError AddressAndSignatureRequired
            \<or> resp = VerifyError NoNonceFound
            \<or> (\<exists>m. resp = VerifyError (VerificationFailed m))
            \<or> resp = VerifyError InvalidSignature
          \<longrightarrow> store' = store \<and> s' = s)
         \<and> ((\<exists>m. resp = VerifyError (CreateFailed m))
              \<or> (\<exists>m. resp = VerifyError (AuthFailed m))
              \<or> (\<exists>created orc token. resp = VerifyOk created orc token)
            \<longrightarrow> store' = kv_delete store (toLowerCase (the (address req))))
         \<and> ((\<not> falsy (address req) \<and> \<not> falsy (signature req)
               \<and> (\<exists>d. kv_get store (DateNow rt) (toLowerCase (the (address req))) = Some d
                      \<and> verifyMessage rt (the (address req))
                           (signInMessage (toISOString rt) (nonce d) (timestamp d))
                           (the (signature req)) = Returned True))
              = ((\<exists>m. resp = VerifyError (CreateFailed m))
                 \<or> (\<exists>m. resp = VerifyError (AuthFailed m))
                 \<or> (\<exists>created orc token. resp = VerifyOk created orc token)))
         \<and> (store' \<noteq> store \<longrightarrow>
              (\<exists>d. kv_get store (DateNow rt) (toLowerCase (the (address req))) = Some d
                  \<and> verifyMessage rt (the (address req))
                       (signInMessage (toISOString rt) (nonce d) (timestamp d))
                       (the (signature req)) = Returned True)
              \<and> store' = kv_delete store (toLowerCase (the (address req))))"
  using assms
  by (auto simp: post_verify_def Let_def findOrCreate_def authToken_def
      split: option.splits attempt.splits bool.splits prod.splits sum.splits if_splits)

theorem verify_deletes_nonce_at_signature_check_witness:
  "post_verify memPB demo_runtime (demo_request ''0xbad1'') (demo_store, [])
     = (VerifyError InvalidSignature, (demo_store, []))
   \<and> post_verify refusingPB demo_runtime (demo_request ''0xgood'') (demo_store, [])
       = (VerifyError (CreateFailed ''Failed to create record.''),
          (kv_delete demo_store (toLowerCase (the (address (demo_request ''0xgood'')))), []))
   \<and> kv_delete demo_store (toLowerCase demo_address) \<noteq> demo_store
   \<and> (\<exists>d. kv_get demo_store (DateNow demo_runtime)
              (toLowerCase (the (address (demo_request ''0xgood'')))) = Some d
          \<and> verifyMessage demo_runtime (the (address (demo_request ''0xgood'')))
               (signInMessage (toISOString demo_runtime) (nonce d) (timestamp d))
               (the (signature (demo_request ''0xgood''))) = Returned True)"
proof -
  note bad = verify_deletes_nonce_at_signature_check [OF demo_verify_bad]
  note refused = verify_deletes_nonce_at_signature_check [OF demo_verify_refused]
  have k: "kv_delete demo_store (toLowerCase demo_address)
             = kv_delete demo_store (toLowerCase (the (address (demo_request ''0xgood''))))"
    using refused by blast
  have r: "post_verify refusingPB demo_runtime (demo_request ''0xgood'') (demo_store, [])
       = (VerifyError (CreateFailed ''Failed to create record.''),
          (kv_delete demo_store (toLowerCase (the (address (demo_request ''0xgood'')))), []))"
    using demo_verify_refused k by simp
  have c: "kv_delete demo_store (toLowerCase (the (address (demo_request ''0xgood''))))
             \<noteq> demo_store"
    using demo_store_changes k by simp
  have d: "\<exists>d. kv_get demo_store (DateNow demo_runtime)
              (toLowerCase (the (address (demo_request ''0xgood'')))) = Some d
          \<and> verifyMessage demo_runtime (the (address (demo_request ''0xgood'')))
               (signInMessage (toISOString demo_runtime) (nonce d) (timestamp d))
               (the (signature (demo_request ''0xgood''))) = Returned True"
    using verify_deletes_nonce_at_signature_check [OF r] c by blast
  show ?thesis
    by (intro conjI) (rule demo_verify_bad, rule r, rule demo_store_changes, rule d)
qed

section \<open>Approval of a record created by wallet verification\<close>

lemma split_loop_single:
  "length sep = 1 \<Longrightarrow> start \<le> i \<Longrightarrow> i \<le> length s
     \<Longrightarrow> \<exists>ps. split_loop s sep i start res = Some ps"
proof (induction s sep i start res rule: split_loop.induct)
  case (1 s sep i start result)
  show ?case
  proof (cases "i < length s")
    case False
    then show ?thesis using "1.prems" by (subst split_loop.simps) simp
  next
    case True
    show ?thesis
    proof (cases "i + length sep \<le> length s \<and> take (length sep) (drop i s) = sep")
      case hit: True
      have "\<exists>ps. split_loop s sep (i + 1) (i + length sep)
                 (result @ [take (i - start) (drop start s)]) = Some ps"
        using "1.IH"(1) [OF True hit] "1.prems" True by simp
      then show ?thesis using True hit "1.prems" by (subst split_loop.simps) auto
    next
      case miss: False
      have "\<exists>ps. split_loop s sep (i + 1) start result = Some ps"
        using "1.IH"(2) [OF True miss] "1.prems" True by simp
      then show ?thesis using True miss by (subst split_loop.simps) auto
    qed
  qed
qed

lemma splitAndTrim_total: "\<exists>ps. splitAndTrim v = Some ps"
proof -
  obtain ps where "split_str v '','' = Some ps"
    using split_loop_single [of "'',''" 0 0 v "[]"] by (auto simp: split_str_def)
  then show ?thesis by (simp add: splitAndTrim_def)
qed

lemma matchesAnyPattern_iff:
  "matchesAnyPattern repo ps = (\<exists>p. p \<in> set ps \<and> matchPattern repo p)"
  by (induction ps) auto

lemma splitAndTrim_empty: "splitAndTrim [] = Some []"
  by code_simp

lemma IsRepoWhitelisted_iff:
  "IsRepoWhitelisted app repo
     = Some (\<exists>p. p \<in> set (the (splitAndTrim (GetSettingValue app ''whitelisted_repos'')))
                 \<and> matchPattern repo p)"
proof (cases "GetSettingValue app ''whitelisted_repos'' = []")
  case True
  then show ?thesis by (simp add: IsRepoWhitelisted_def splitAndTrim_empty)
next
  case False
  obtain ps where "splitAndTrim (GetSettingValue app ''whitelisted_repos'') = Some ps"
    using splitAndTrim_total by blast
  then show ?thesis using False
    by (simp add: IsRepoWhitelisted_def matchesAnyPattern_iff)
qed

lemma default_patterns:
  "splitAndTrim (GetSettingValue default_settings ''whitelisted_repos'') = Some [''Soul-Brews-Studio/*'']"
  by code_simp

lemma verify_created_shape:
  assumes "post_verify pb rt req (store, s) = (VerifyOk True orc token, st')"
  shows "\<exists>s1. create pb s (createRequest (the (address req)) (name req)) = (Returned orc, s1)"
  using assms
  by (auto simp: post_verify_def Let_def findOrCreate_def
      split: option.splits attempt.splits bool.splits prod.splits sum.splits if_splits)

text \<open>
  C5, as the spec states it, fails: with the seeded allow-list (\<open>Soul-Brews-Studio/*\<close>) the
  address matches no pattern, and the record that \<open>POST /verify\<close> creates for it is
  approved.
\<close>

theorem wallet_create_ignores_allowlist:
  "IsRepoWhitelisted default_settings demo_address = Some False
   \<and> IsRepoWhitelisted default_settings (toLowerCase demo_address) = Some False
   \<and> fst (post_verify memPB demo_runtime (demo_request ''0xgood'') (demo_store, []))
       = VerifyOk True demo_oracle ''token-rec''
   \<and> approved demo_oracle = True"
proof -
  have a: "IsRepoWhitelisted default_settings demo_address = Some False"
    unfolding IsRepoWhitelisted_iff default_patterns
    by (simp add: matchPattern_def demo_address_def)
  have b: "IsRepoWhitelisted default_settings (toLowerCase demo_address) = Some False"
    unfolding IsRepoWhitelisted_iff default_patterns toLowerCase_demo_address
    by (simp add: matchPattern_def)
  show ?thesis using a b by (simp add: demo_verify_good demo_oracle_def)
qed

text \<open>
  C5, amended. The object that \<open>POST /verify\<close> hands to \<open>create\<close> on a lookup miss always
  has \<open>approved = true\<close>, and a response with \<open>created = true\<close> carries the record that
  \<open>create\<close> returned for that object; no allow-list is read. The allow-list helper
  \<open>IsRepoWhitelisted\<close> is a separate function of the settings it is handed at each call:
  it answers whether some pattern of the current \<open>whitelisted_repos\<close> value (exact, or a
  prefix ending in \<open>*\<close>) matches the repo.
\<close>

theorem wallet_create_always_approved:
  "capproved (createRequest a nm) = True
   \<and> (post_verify pb rt req (store, s) = (VerifyOk True orc token, st') \<longrightarrow>
        (\<exists>s1. create pb s (createRequest (the (address req)) (name req)) = (Returned orc, s1)))
   \<and> IsRepoWhitelisted app repo
       = Some (\<exists>p. p \<in> set (the (splitAndTrim (GetSettingValue app ''whitelisted_repos'')))
                   \<and> matchPattern repo p)"
  using verify_created_shape [of pb rt req store s orc token st'] IsRepoWhitelisted_iff [of app repo]
  by (simp add: createRequest_def)

theorem wallet_create_always_approved_witness:
  "post_verify memPB demo_runtime (demo_request ''0xgood'') (demo_store, [])
     = (VerifyOk True demo_oracle ''token-rec'',
        (kv_delete demo_store (toLowerCase demo_address),
         [(demo_oracle, ''0x52908400098527886e0f7030069857d2e4169ee7'')]))
   \<and> (\<exists>s1. create memPB []
              (createRequest (the (address (demo_request ''0xgood'')))
                 (name (demo_request ''0xgood'')))
            = (Returned demo_oracle, s1))"
  using wallet_create_always_approved [of demo_address None memPB demo_runtime
      "demo_request ''0xgood''" demo_store "[]" demo_oracle "''token-rec''"
      "(kv_delete demo_store (toLowerCase demo_address),
         [(demo_oracle, ''0x52908400098527886e0f7030069857d2e4169ee7'')])"]
    demo_verify_good
  by blast

section \<open>Repository verification through issue comments\<close>

lemma scanComments_iff:
  "scanComments u cs p a
     = (\<exists>c. c \<in> set cs \<and> EqualFold u (CommentLogin c) a \<and> Contains (CommentBody c) p)"
  by (induction cs) auto

lemma checkComments_true_iff:
  "(checkCommentsForCode env owner repo num code author = Inr True)
     = (\<exists>status comments c. httpGetComments env owner repo num = Response status comments
          \<and> c \<in> set comments \<and> EqualFold (unicodeEqualFold env) (CommentLogin c) author
          \<and> Contains (CommentBody c) (''verify:'' @ code))"
  by (auto simp: checkCommentsForCode_def scanComments_iff split: http_result.splits)

lemma Contains_suffix_part: "Contains s (p @ q) \<Longrightarrow> Contains s q"
proof -
  assume "Contains s (p @ q)"
  then obtain a b where "s = a @ (p @ q) @ b" unfolding Contains_iff by blast
  then have "s = (a @ p) @ q @ b" by simp
  then show ?thesis unfolding Contains_iff by blast
qed

text \<open>
  C10. \<open>checkCommentsForCode\<close> answers true exactly when some comment of the issue has a
  login that \<open>strings.EqualFold\<close> equates with the expected author and a body that
  contains \<open>verify:\<close> followed by the code, with any text before and after; when the
  comments are read and no comment is such, it answers false, and a transport error is
  passed on. On ASCII logins, as GitHub's are, \<open>EqualFold\<close> is equality up to the case of
  the letters. So a comment whose author is the expected author up to letter case and
  whose body has the code embedded in any surrounding text gives true.
\<close>

theorem comment_check_by_author_and_code:
  "checkCommentsForCode env owner repo issueNum code expectedAuthor
     = (case httpGetComments env owner repo issueNum of
          TransportError e \<Rightarrow> Inl e
        | Response status comments \<Rightarrow>
            Inr (\<exists>c before rest. c \<in> set comments
                   \<and> EqualFold (unicodeEqualFold env) (CommentLogin c) expectedAuthor
                   \<and> CommentBody c = before @ ''verify:'' @ code @ rest))
   \<and> (isASCII login \<and> isASCII expectedAuthor \<longrightarrow>
        EqualFold (unicodeEqualFold env) login expectedAuthor
          = (toLowerCase login = toLowerCase expectedAuthor))
   \<and> (httpGetComments env owner repo issueNum = Response st cs
        \<and> m \<in> set cs
        \<and> isASCII (CommentLogin m) \<and> isASCII expectedAuthor
        \<and> toLowerCase (CommentLogin m) = toLowerCase expectedAuthor
        \<and> CommentBody m = pre @ ''verify:'' @ code @ post
      \<longrightarrow> checkCommentsForCode env owner repo issueNum code expectedAuthor = Inr True)"
proof (intro conjI impI)
  show "checkCommentsForCode env owner repo issueNum code expectedAuthor
     = (case httpGetComments env owner repo issueNum of
          TransportError e \<Rightarrow> Inl e
        | Response status comments \<Rightarrow>
            Inr (\<exists>c before rest. c \<in> set comments
                   \<and> EqualFold (unicodeEqualFold env) (CommentLogin c) expectedAuthor
                   \<and> CommentBody c = before @ ''verify:'' @ code @ rest))"
  proof (cases "httpGetComments env owner repo issueNum")
    case (TransportError e)
    then show ?thesis by (simp add: checkCommentsForCode_def)
  next
    case (Response status comments)
    have k: "\<And>body. Contains body (''verify:'' @ code)
               = (\<exists>before rest. body = before @ (''verify:'' @ code) @ rest)"
      by (rule Contains_iff)
    have "scanComments (unicodeEqualFold env) comments (''verify:'' @ code) expectedAuthor
            = (\<exists>c before rest. c \<in> set comments
                 \<and> EqualFold (unicodeEqualFold env) (CommentLogin c) expectedAuthor
                 \<and> CommentBody c = before @ (''verify:'' @ code) @ rest)"
      unfolding scanComments_iff k by blast
    then show ?thesis using Response by (simp add: checkCommentsForCode_def)
  qed
next
  assume "isASCII login \<and> isASCII expectedAuthor"
  then show "EqualFold (unicodeEqualFold env) login expectedAuthor
          = (toLowerCase login = toLowerCase expectedAuthor)"
    by (simp add: EqualFold_ASCII)
next
  assume h: "httpGetComments env owner repo issueNum = Response st cs
        \<and> m \<in> set cs
        \<and> isASCII (CommentLogin m) \<and> isASCII expectedAuthor
        \<and> toLowerCase (CommentLogin m) = toLowerCase expectedAuthor
        \<and> CommentBody m = pre @ ''verify:'' @ code @ post"
  then have e: "EqualFold (unicodeEqualFold env) (CommentLogin m) expectedAuthor"
    by (simp add: EqualFold_ASCII)
  have "CommentBody m = pre @ (''verify:'' @ code) @ post" using h by simp
  then have c: "Contains (CommentBody m) (''verify:'' @ code)"
    unfolding Contains_iff by blast
  show "checkCommentsForCode env owner repo issueNum code expectedAuthor = Inr True"
    unfolding checkComments_true_iff using h e c by blast
qed

lemma demo_bob_comments:
  "httpGetComments demo_hooks ''bob'' ''oracle-b'' ''1''
     = Response 200 [\<lparr>CommentBody = ''verify:deadbeef'', CommentLogin = ''eve''\<rparr>,
                     \<lparr>CommentBody = ''Here it is: verify:deadbeef, thanks'',
                      CommentLogin = ''bob-dev''\<rparr>]"
  by (simp add: demo_hooks_def demo_comments_def)

lemma demo_logins:
  "isASCII ''bob-dev''" "isASCII ''Bob-Dev''" "toLowerCase ''bob-dev'' = toLowerCase ''Bob-Dev''"
  by code_simp+

lemma demo_other_author:
  "checkCommentsForCode demo_hooks ''bob'' ''oracle-b'' ''1'' ''deadbeef'' ''alice'' = Inr False"
  by (simp add: checkCommentsForCode_def demo_bob_comments)

theorem comment_check_by_author_and_code_witness:
  "isASCII ''bob-dev'' \<and> isASCII ''Bob-Dev''
   \<and> toLowerCase ''bob-dev'' = toLowerCase ''Bob-Dev''
   \<and> EqualFold (unicodeEqualFold demo_hooks) ''bob-dev'' ''Bob-Dev''
   \<and> checkCommentsForCode demo_hooks ''bob'' ''oracle-b'' ''1'' ''deadbeef'' ''Bob-Dev'' = Inr True
   \<and> checkCommentsForCode demo_hooks ''bob'' ''oracle-b'' ''1'' ''deadbeef'' ''alice'' = Inr False"
proof -
  note t = comment_check_by_author_and_code [of demo_hooks "''bob''" "''oracle-b''" "''1''"
      "''deadbeef''" "''Bob-Dev''" "''bob-dev''" 200
      "[\<lparr>CommentBody = ''verify:deadbeef'', CommentLogin = ''eve''\<rparr>,
        \<lparr>CommentBody = ''Here it is: verify:deadbeef, thanks'', CommentLogin = ''bob-dev''\<rparr>]"
      "\<lparr>CommentBody = ''Here it is: verify:deadbeef, thanks'', CommentLogin = ''bob-dev''\<rparr>"
      "''Here it is: ''" "'', thanks''"]
  have e: "EqualFold (unicodeEqualFold demo_hooks) ''bob-dev'' ''Bob-Dev''"
    using t demo_logins by blast
  have p: "checkCommentsForCode demo_hooks ''bob'' ''oracle-b'' ''1'' ''deadbeef'' ''Bob-Dev''
             = Inr True"
    by (rule t [THEN conjunct2, THEN conjunct2, THEN mp])
       (simp add: demo_bob_comments demo_logins)
  show ?thesis
    by (intro conjI) (rule demo_logins e p demo_other_author)+
qed

text \<open>
  What a successful \<open>POST /api/auth/github/verify\<close> implies: the issue the URL names was
  read with status 200, and one of its comments is by that issue's author (up to letter
  case) and contains \<open>verify:\<close> and the code.
\<close>

lemma github_verify_success_shape:
  assumes "github_verify env now url code (codes, app) = (Verified token created orc, st')"
  shows "\<exists>owner repo num issue status comments c.
           parseIssueURL url = Some (owner, repo, num)
           \<and> httpGetIssue env owner repo num = Response 200 issue
           \<and> httpGetComments env owner repo num = Response status comments
           \<and> c \<in> set comments
           \<and> EqualFold (unicodeEqualFold env) (CommentLogin c) (UserLogin issue)
           \<and> Contains (CommentBody c) (''verify:'' @ code)
           \<and> Contains (CommentBody c) code"
proof -
  obtain owner repo num where p: "parseIssueURL url = Some (owner, repo, num)"
    using assms by (auto simp: github_verify_def split: option.splits)
  obtain info where f: "fetchIssue env owner repo num = Inr info"
      and ck: "checkCommentsForCode env owner repo num code (Author info) = Inr True"
    using assms p
    by (auto simp: github_verify_def Let_def split: sum.splits if_splits prod.splits)
  obtain issue where g: "httpGetIssue env owner repo num = Response 200 issue"
      and au: "Author info = UserLogin issue"
    using f by (auto simp: fetchIssue_def split: http_result.splits if_splits)
  obtain status comments c where
      h: "httpGetComments env owner repo num = Response status comments"
      and c: "c \<in> set comments" "EqualFold (unicodeEqualFold env) (CommentLogin c) (Author info)"
        "Contains (CommentBody c) (''verify:'' @ code)"
    using ck unfolding checkComments_true_iff by blast
  have "Contains (CommentBody c) code"
    using c(3) by (rule Contains_suffix_part)
  then show ?thesis using p g h c au by auto
qed

text \<open>
  And the other way round: with a pending, unexpired, matching code, a readable issue, a
  comment by its author that contains \<open>verify:\<close> and the code, and a record and token
  that can be produced, the route answers success and clears the code.
\<close>

lemma github_verify_succeeds:
  assumes url: "parseIssueURL issueUrl = Some (owner, repo, issueNum)"
    and stored: "codes (owner @ ''/'' @ repo) = Some sc" "Code sc = code" "now \<le> ExpiresAt sc"
    and issue: "httpGetIssue env owner repo issueNum = Response 200 issue"
    and comments: "httpGetComments env owner repo issueNum = Response status cs"
    and comment: "c \<in> set cs" "EqualFold (unicodeEqualFold env) (CommentLogin c) (UserLogin issue)"
      "CommentBody c = before @ ''verify:'' @ code @ rest"
    and saved: "findOrCreateOracleByGitHub env app (UserLogin issue) (owner @ ''/'' @ repo)
                  (extractOracleName env (Title issue) (Body issue)) = (Inr (orc, created), app')"
    and token: "NewAuthToken env orc = Inr tok"
  shows "github_verify env now issueUrl code (codes, app)
           = (Verified tok created orc, (clearVerificationCode codes (owner @ ''/'' @ repo), app'))"
proof -
  have v: "verifyStoredCode codes now (owner @ ''/'' @ repo) code = (True, codes)"
    using stored by (simp add: verifyStoredCode_def)
  have f: "fetchIssue env owner repo issueNum
             = Inr \<lparr>Author = UserLogin issue,
                    OracleName = extractOracleName env (Title issue) (Body issue),
                    HasBirthPropsLabel = (''birth-props'' \<in> set (Labels issue))\<rparr>"
    using issue by (simp add: fetchIssue_def)
  have "CommentBody c = before @ (''verify:'' @ code) @ rest"
    using comment(3) by simp
  then have "Contains (CommentBody c) (''verify:'' @ code)"
    unfolding Contains_iff by blast
  moreover have "EqualFold (unicodeEqualFold env) (CommentLogin c) (UserLogin issue)"
    using comment(2) .
  ultimately have k:
    "checkCommentsForCode env owner repo issueNum code (UserLogin issue) = Inr True"
    unfolding checkComments_true_iff using comments comment(1) by blast
  show ?thesis
    using v saved token by (simp add: github_verify_def url f k Let_def)
qed


lemma parse_birth_issue_url: "parseIssueURL ''https://github.com/alice/oracle/issues/1'' = Some (''alice'', ''oracle'', ''1'')"
  by code_simp
lemma parse_second_issue_url: "parseIssueURL ''https://github.com/alice/oracle/issues/2'' = Some (''alice'', ''oracle'', ''2'')"
  by code_simp
lemma demo_generateCode: "generateCode demo_hooks = ''deadbeef''"
  by code_simp


lemma showNat0: "showNat 0 = ''0''"
  by (subst showNat.simps) simp

lemma demo_start:
  "github_start demo_hooks 0 ''https://github.com/alice/oracle/issues/1'' Map.empty
     = (Started ''deadbeef'' [], [''alice/oracle'' \<mapsto> \<lparr>Code = ''deadbeef'', ExpiresAt = tenMinutes\<rparr>])"
proof -
  have i: "fetchIssue demo_hooks ''alice'' ''oracle'' ''1''
             = Inr \<lparr>Author = ''alice'', OracleName = [], HasBirthPropsLabel = True\<rparr>"
    by (simp add: fetchIssue_def demo_hooks_def demo_issues_def)
  show ?thesis
    by (simp add: github_start_def parse_birth_issue_url i demo_generateCode storeVerificationCode_def Let_def)
qed

lemma demo_verify_issue2:
  "github_verify demo_hooks 5 ''https://github.com/alice/oracle/issues/2'' ''deadbeef''
       ([''alice/oracle'' \<mapsto> \<lparr>Code = ''deadbeef'', ExpiresAt = tenMinutes\<rparr>], [])
     = (Verified ''token-rec0'' True
          \<lparr>rid = ''rec0'', rname = ''mallory'', remail = ''mallory@github.oracle'',
           github_username = ''mallory'', github_repo = ''alice/oracle'',
           rapproved = True, rkarma = 0\<rparr>,
        (Map.empty,
         [\<lparr>rid = ''rec0'', rname = ''mallory'', remail = ''mallory@github.oracle'',
           github_username = ''mallory'', github_repo = ''alice/oracle'',
           rapproved = True, rkarma = 0\<rparr>]))"
proof -
  have i: "fetchIssue demo_hooks ''alice'' ''oracle'' ''2''
             = Inr \<lparr>Author = ''mallory'', OracleName = [], HasBirthPropsLabel = False\<rparr>"
    by (simp add: fetchIssue_def demo_hooks_def demo_issues_def)
  have c: "checkCommentsForCode demo_hooks ''alice'' ''oracle'' ''2'' ''deadbeef'' ''mallory''
             = Inr True"
    by (simp add: checkCommentsForCode_def demo_hooks_def demo_comments_def)
  have f: "findOrCreateOracleByGitHub demo_hooks [] ''mallory'' ''alice/oracle'' []
             = (Inr (\<lparr>rid = ''rec0'', rname = ''mallory'', remail = ''mallory@github.oracle'',
                      github_username = ''mallory'', github_repo = ''alice/oracle'',
                      rapproved = True, rkarma = 0\<rparr>, True),
                [\<lparr>rid = ''rec0'', rname = ''mallory'', remail = ''mallory@github.oracle'',
                  github_username = ''mallory'', github_repo = ''alice/oracle'',
                  rapproved = True, rkarma = 0\<rparr>])"
    by (simp add: findOrCreateOracleByGitHub_def demo_hooks_def Let_def showNat0)
  have t: "\<And>r. NewAuthToken demo_hooks r = Inr (''token-'' @ rid r)"
    by (simp add: demo_hooks_def)
  have v: "verifyStoredCode [''alice/oracle'' \<mapsto> \<lparr>Code = ''deadbeef'', ExpiresAt = tenMinutes\<rparr>]
              5 ''alice/oracle'' ''deadbeef''
            = (True, [''alice/oracle'' \<mapsto> \<lparr>Code = ''deadbeef'', ExpiresAt = tenMinutes\<rparr>])"
    by (simp add: verifyStoredCode_def tenMinutes_def)
  show ?thesis
    by (simp add: github_verify_def parse_second_issue_url v i c f t clearVerificationCode_def Let_def)
qed

text \<open>
  C4 asks that verification succeed only through a comment on the birth issue by that
  issue's author. The verify route does not require the URL to name issue 1 (the start
  route does). Here a code is pending for \<open>alice/oracle\<close>, whose birth issue by \<open>alice\<close>
  has no comment; the request that names issue 2, opened and commented by \<open>mallory\<close>, is
  verified and yields an approved record of \<open>mallory\<close> for \<open>alice/oracle\<close>.
\<close>

theorem verify_accepts_other_issue:
  "github_start demo_hooks 0 ''https://github.com/alice/oracle/issues/1'' Map.empty
     = (Started ''deadbeef'' [], [''alice/oracle'' \<mapsto> \<lparr>Code = ''deadbeef'', ExpiresAt = tenMinutes\<rparr>])
   \<and> httpGetIssue demo_hooks ''alice'' ''oracle'' ''1''
       = Response 200 \<lparr>Title = ''Birth'', Body = [], UserLogin = ''alice'',
                       Labels = [''birth-props'']\<rparr>
   \<and> httpGetComments demo_hooks ''alice'' ''oracle'' ''1'' = Response 200 []
   \<and> fst (github_verify demo_hooks 5 ''https://github.com/alice/oracle/issues/2'' ''deadbeef''
            ([''alice/oracle'' \<mapsto> \<lparr>Code = ''deadbeef'', ExpiresAt = tenMinutes\<rparr>], []))
       = Verified ''token-rec0'' True
          \<lparr>rid = ''rec0'', rname = ''mallory'', remail = ''mallory@github.oracle'',
           github_username = ''mallory'', github_repo = ''alice/oracle'',
           rapproved = True, rkarma = 0\<rparr>"
proof -
  have i: "httpGetIssue demo_hooks ''alice'' ''oracle'' ''1''
       = Response 200 \<lparr>Title = ''Birth'', Body = [], UserLogin = ''alice'',
                       Labels = [''birth-props'']\<rparr>"
    by (simp add: demo_hooks_def demo_issues_def)
  have c: "httpGetComments demo_hooks ''alice'' ''oracle'' ''1'' = Response 200 []"
    by (simp add: demo_hooks_def demo_comments_def)
  show ?thesis using demo_start demo_verify_issue2 i c by simp
qed

section \<open>The Merkle tree: round trip and the odd-layer rule\<close>

lemma length_nextLayer: "length (nextLayer h layer) = (length layer + 1) div 2"
  by (induction h layer rule: nextLayer.induct) auto

lemma lexLe_total: "lexLe a b \<or> lexLe b a"
  by (induction a b rule: lexLe.induct) auto

lemma lexLe_Nil: "lexLe ys [] = (ys = [])"
  by (cases ys) auto

lemma lexLe_antisym: "lexLe a b \<Longrightarrow> lexLe b a \<Longrightarrow> a = b"
  by (induction a b rule: lexLe.induct) (auto simp: lexLe_Nil split: if_splits)

lemma sortedConcat_commute: "sortedConcat a b = sortedConcat b a"
  using lexLe_total [of a b] lexLe_antisym [of a b] by (auto simp: sortedConcat_def)

lemma internalHash_commute: "internalHash h a b = internalHash h b a"
  by (simp add: internalHash_def sortedConcat_commute [of a b])

lemma nextLayer_left:
  "even i \<Longrightarrow> i + 1 < length layer
     \<Longrightarrow> nextLayer h layer ! (i div 2) = internalHash h (layer ! i) (layer ! (i + 1))"
proof (induction h layer arbitrary: i rule: nextLayer.induct)
  case (1 h a b rest)
  show ?case
  proof (cases i)
    case 0
    then show ?thesis by simp
  next
    case (Suc j)
    then obtain k where k: "i = Suc (Suc k)" using "1.prems"(1) by (cases j) auto
    then have "even k" "k + 1 < length rest" using "1.prems" by auto
    then have "nextLayer h rest ! (k div 2) = internalHash h (rest ! k) (rest ! (k + 1))"
      by (rule "1.IH")
    then show ?thesis using k by simp
  qed
qed auto

lemma nextLayer_right:
  "odd i \<Longrightarrow> i < length layer
     \<Longrightarrow> nextLayer h layer ! (i div 2) = internalHash h (layer ! (i - 1)) (layer ! i)"
  using nextLayer_left [of "i - 1" layer h] by (auto elim!: oddE)

lemma nextLayer_carried:
  "even i \<Longrightarrow> i + 1 = length layer \<Longrightarrow> nextLayer h layer ! (i div 2) = layer ! i"
proof (induction h layer arbitrary: i rule: nextLayer.induct)
  case (1 h a b rest)
  then obtain k where k: "i = Suc (Suc k)" by (cases i; cases "i - 1") auto
  then have "even k" "k + 1 = length rest" using "1.prems" by auto
  then have "nextLayer h rest ! (k div 2) = rest ! k" by (rule "1.IH")
  then show ?case using k by simp
qed auto

lemma last_buildLayers:
  "layer \<noteq> [] \<Longrightarrow> \<exists>r. last (buildLayers h layer) = [r]"
proof (induction h layer rule: buildLayers.induct)
  case (1 h layer)
  show ?case
  proof (cases "length layer \<le> 1")
    case True
    then obtain r where "layer = [r]" using "1.prems" by (cases layer) auto
    then show ?thesis by (subst buildLayers.simps) simp
  next
    case False
    then have "nextLayer h layer \<noteq> []"
      using length_nextLayer [of h layer] by (cases "nextLayer h layer") auto
    then obtain r where r: "last (buildLayers h (nextLayer h layer)) = [r]"
      using "1.IH" False by blast
    have ne: "buildLayers h (nextLayer h layer) \<noteq> []"
      by (subst buildLayers.simps) simp
    show ?thesis using False r ne by (subst buildLayers.simps) simp
  qed
qed

lemma buildLayers_Cons: "\<exists>ls. buildLayers h layer = layer # ls"
  by (subst buildLayers.simps) simp

lemma fold_siblingPath:
  "i < length layer
     \<Longrightarrow> [foldl (internalHash h) (layer ! i) (siblingPath (buildLayers h layer) i)]
           = last (buildLayers h layer)"
proof (induction h layer arbitrary: i rule: buildLayers.induct)
  case (1 h layer)
  show ?case
  proof (cases "length layer \<le> 1")
    case True
    then obtain r where "layer = [r]" using "1.prems" by (cases layer) auto
    then show ?thesis using "1.prems" by (subst (1 2) buildLayers.simps) simp
  next
    case False
    let ?up = "nextLayer h layer"
    obtain ls where ls: "buildLayers h ?up = ?up # ls"
      using buildLayers_Cons by blast
    have b: "buildLayers h layer = layer # ?up # ls"
      using False ls by (subst buildLayers.simps) simp
    have pos: "i div 2 < length ?up"
      using "1.prems" by (simp add: length_nextLayer)
    have ih: "[foldl (internalHash h) (?up ! (i div 2)) (siblingPath (buildLayers h ?up) (i div 2))]
                = last (buildLayers h ?up)"
      using "1.IH" False pos by blast
    have step: "foldl (internalHash h) (layer ! i) (siblingPath (layer # ?up # ls) i)
                  = foldl (internalHash h) (?up ! (i div 2)) (siblingPath (?up # ls) (i div 2))"
    proof (cases "even i")
      case ev: True
      show ?thesis
      proof (cases "i + 1 < length layer")
        case True
        then show ?thesis using ev by (simp add: nextLayer_left)
      next
        case False
        then have "i + 1 = length layer" using "1.prems" by simp
        then show ?thesis using ev by (simp add: nextLayer_carried)
      qed
    next
      case od: False
      then have "i - 1 < length layer" using "1.prems" by simp
      then show ?thesis using od "1.prems"
        by (simp add: nextLayer_right internalHash_commute [of h "layer ! i"])
    qed
    show ?thesis using ih step b ls by simp
  qed
qed

lemma index_of_member:
  assumes "x \<in> set xs"
  shows "\<exists>i. map_of (zip xs [0 ..< length xs]) x = Some i \<and> i < length xs \<and> xs ! i = x"
proof -
  have "length xs = length [0 ..< length xs]" by simp
  then obtain i where i: "map_of (zip xs [0 ..< length xs]) x = Some i"
    using assms map_of_zip_is_Some by metis
  then have "(x, i) \<in> set (zip xs [0 ..< length xs])" by (rule map_of_SomeD)
  then obtain n where "xs ! n = x" "[0 ..< length xs] ! n = i" "n < length xs"
    by (auto simp: in_set_zip)
  then have "i < length xs \<and> xs ! i = x" by simp
  then show ?thesis using i by blast
qed

lemma round_trip_at_index:
  assumes "i < length leaves"
  shows "\<exists>p r. proveMembership (build h leaves) i = Some p
           \<and> root (build h leaves) = Some r
           \<and> verifyMembership h (sort_key issueNumber leaves ! i) p r"
proof -
  let ?ordered = "sort_key issueNumber leaves"
  let ?bottom = "map (leafHash h) ?ordered"
  let ?ls = "buildLayers h ?bottom"
  have len: "i < length ?bottom" using assms by simp
  have lay: "layers (build h leaves) = ?ls" by (simp add: build_def Let_def)
  obtain above where ab: "?ls = ?bottom # above" using buildLayers_Cons by blast
  have p: "proveMembership (build h leaves) i = Some (siblingPath ?ls i)"
    using len by (simp add: proveMembership_def lay ab)
  have "?bottom \<noteq> []" using len by (metis gr_implies_not0 list.size(3))
  then obtain r where r: "last ?ls = [r]" using last_buildLayers by blast
  have rt: "root (build h leaves) = Some r"
    by (simp add: build_def Let_def r)
  have "[foldl (internalHash h) (?bottom ! i) (siblingPath ?ls i)] = [r]"
    using fold_siblingPath [OF len] r by simp
  moreover have "?bottom ! i = leafHash h (?ordered ! i)" using assms by simp
  ultimately have "verifyMembership h (?ordered ! i) (siblingPath ?ls i) r"
    by (simp add: verifyMembership_def)
  then show ?thesis using p rt by blast
qed

lemma round_trip_of_leaf:
  assumes "leaf \<in> set leaves"
  shows "\<exists>i p r. leafIndex (build h leaves) leaf = Some i
           \<and> proveMembership (build h leaves) i = Some p
           \<and> root (build h leaves) = Some r
           \<and> verifyMembership h leaf p r"
proof -
  let ?ordered = "sort_key issueNumber leaves"
  have mem: "leaf \<in> set ?ordered" using assms by simp
  from index_of_member [OF mem] obtain i
    where i1: "map_of (zip ?ordered [0 ..< length ?ordered]) leaf = Some i"
      and i2: "i < length ?ordered" and i3: "?ordered ! i = leaf"
    by blast
  have ix: "leafIndex (build h leaves) leaf = Some i"
    using i1 by (simp add: build_def Let_def)
  have il: "i < length leaves" using i2 by simp
  from round_trip_at_index [OF il, of h] obtain p r
    where p: "proveMembership (build h leaves) i = Some p"
      and r: "root (build h leaves) = Some r"
      and v: "verifyMembership h (?ordered ! i) p r"
    by blast
  have v': "verifyMembership h leaf p r" using v i3 by simp
  show ?thesis
    by (intro exI conjI) (rule ix, rule p, rule r, rule v')
qed

text \<open>
  C2. For every leaf handed to \<open>build\<close>, the tree's index map gives the leaf an index,
  \<open>proveMembership\<close> of that index gives a proof, the tree has a root, and
  \<open>verifyMembership\<close> of the leaf, that proof and that root is true. The same holds
  index by index: for every position of the ordered leaf layer, the proof of that
  position verifies the leaf at that position against the root.
\<close>

theorem membership_round_trip:
  "(leaf \<in> set leaves \<longrightarrow>
      (\<exists>i p r. leafIndex (build h leaves) leaf = Some i
         \<and> proveMembership (build h leaves) i = Some p
         \<and> root (build h leaves) = Some r
         \<and> verifyMembership h leaf p r))
   \<and> (j < length leaves \<longrightarrow>
        (\<exists>p r. proveMembership (build h leaves) j = Some p
           \<and> root (build h leaves) = Some r
           \<and> verifyMembership h (sort_key issueNumber leaves ! j) p r))"
proof (intro conjI impI)
  assume "leaf \<in> set leaves"
  then show "\<exists>i p r. leafIndex (build h leaves) leaf = Some i
         \<and> proveMembership (build h leaves) i = Some p
         \<and> root (build h leaves) = Some r
         \<and> verifyMembership h leaf p r"
    by (rule round_trip_of_leaf)
next
  assume "j < length leaves"
  then show "\<exists>p r. proveMembership (build h leaves) j = Some p
           \<and> root (build h leaves) = Some r
           \<and> verifyMembership h (sort_key issueNumber leaves ! j) p r"
    by (rule round_trip_at_index)
qed

lemma demo_ordered:
  "sort_key issueNumber demo_leaves = [demo_leaf 4, demo_leaf 7, demo_leaf 9]"
  by (simp add: demo_leaves_def demo_leaf_def)

theorem membership_round_trip_witness:
  "demo_leaf 9 \<in> set demo_leaves
   \<and> (\<exists>i p r. leafIndex (build demo_hasher demo_leaves) (demo_leaf 9) = Some i
           \<and> proveMembership (build demo_hasher demo_leaves) i = Some p
           \<and> root (build demo_hasher demo_leaves) = Some r
           \<and> verifyMembership demo_hasher (demo_leaf 9) p r)
   \<and> (0::nat) < length demo_leaves
   \<and> (\<exists>p r. proveMembership (build demo_hasher demo_leaves) 0 = Some p
           \<and> root (build demo_hasher demo_leaves) = Some r
           \<and> verifyMembership demo_hasher (sort_key issueNumber demo_leaves ! 0) p r)"
proof -
  note t = membership_round_trip [of "demo_leaf 9" demo_leaves demo_hasher 0]
  have m: "demo_leaf 9 \<in> set demo_leaves" by (simp add: demo_leaves_def)
  have n: "(0::nat) < length demo_leaves" by (simp add: demo_leaves_def)
  show ?thesis
    by (intro conjI) (rule m, rule t [THEN conjunct1, THEN mp, OF m], rule n,
        rule t [THEN conjunct2, THEN mp, OF n])
qed

lemma last_nextLayer_odd:
  "odd (length layer) \<Longrightarrow> last (nextLayer h layer) = last layer"
proof (induction h layer rule: nextLayer.induct)
  case (1 h a b rest)
  then have o: "odd (length rest)" by simp
  then have "rest \<noteq> []" by auto
  moreover have "nextLayer h rest \<noteq> []"
    using o length_nextLayer [of h rest] by (cases "nextLayer h rest") auto
  ultimately show ?case using "1.IH" o by simp
qed auto

lemma buildLayers_three:
  "buildLayers h [a, b, c]
     = [[a, b, c], [internalHash h a b, c], [internalHash h (internalHash h a b) c]]"
  by (simp add: buildLayers.simps [of h "[a, b, c]"] buildLayers.simps [of h "[x, y]" for x y]
      buildLayers.simps [of h "[x]" for x])

text \<open>
  C3. The parent layer of an odd layer ends with the last node of that layer, unchanged,
  and has one node per pair plus that one; every pair of neighbours is replaced by the
  hash of its sorted concatenation. For leaves that are \<open>L0, L1, L2\<close> in ascending
  issue order the tree has three layers: the leaf hashes, then
  \<open>[hash(sort(L0, L1)), L2]\<close>, and the root \<open>hash(sort(layer1[0], layer1[1]))\<close>.
\<close>

theorem odd_layer_carried_up:
  "(odd (length layer) \<longrightarrow>
      last (nextLayer h layer) = last layer
      \<and> length (nextLayer h layer) = (length layer + 1) div 2)
   \<and> (2 * k + 1 < length layer \<longrightarrow>
        nextLayer h layer ! k = hash h (sortedConcat (layer ! (2 * k)) (layer ! (2 * k + 1))))
   \<and> (sort_key issueNumber leaves = [L0, L1, L2] \<longrightarrow>
        layers (build h leaves) ! 0 = [leafHash h L0, leafHash h L1, leafHash h L2]
        \<and> layers (build h leaves) ! 1
            = [hash h (sortedConcat (leafHash h L0) (leafHash h L1)), leafHash h L2]
        \<and> length (layers (build h leaves)) = 3
        \<and> root (build h leaves)
            = Some (hash h (sortedConcat (layers (build h leaves) ! 1 ! 0)
                                         (layers (build h leaves) ! 1 ! 1))))"
proof -
  have a: "odd (length layer) \<longrightarrow>
      last (nextLayer h layer) = last layer
      \<and> length (nextLayer h layer) = (length layer + 1) div 2"
    by (simp add: last_nextLayer_odd length_nextLayer)
  have b: "2 * k + 1 < length layer \<longrightarrow>
        nextLayer h layer ! k = hash h (sortedConcat (layer ! (2 * k)) (layer ! (2 * k + 1)))"
    using nextLayer_left [of "2 * k" layer h] by (simp add: internalHash_def)
  have c: "sort_key issueNumber leaves = [L0, L1, L2] \<longrightarrow>
        layers (build h leaves) ! 0 = [leafHash h L0, leafHash h L1, leafHash h L2]
        \<and> layers (build h leaves) ! 1
            = [hash h (sortedConcat (leafHash h L0) (leafHash h L1)), leafHash h L2]
        \<and> length (layers (build h leaves)) = 3
        \<and> root (build h leaves)
            = Some (hash h (sortedConcat (layers (build h leaves) ! 1 ! 0)
                                         (layers (build h leaves) ! 1 ! 1)))"
    by (simp add: build_def Let_def buildLayers_three internalHash_def)
  show ?thesis using a b c by blast
qed

lemma demo_hashes:
  "leafHash demo_hasher (demo_leaf 4) = ''L4''"
  "leafHash demo_hasher (demo_leaf 7) = ''L7''"
  "leafHash demo_hasher (demo_leaf 9) = ''L9''"
  by (simp_all add: leafHash_def demo_hasher_def demo_leaf_def showNat.simps [of 4]
      showNat.simps [of 7] showNat.simps [of 9])

lemma demo_internalHash:
  "internalHash demo_hasher ''L4'' ''L7'' = ''H(L4L7)''"
  "internalHash demo_hasher ''H(L4L7)'' ''L9'' = ''H(H(L4L7)L9)''"
  "internalHash demo_hasher ''L9'' ''H(L4L7)'' = ''H(H(L4L7)L9)''"
  by (simp_all add: internalHash_def sortedConcat_def demo_hasher_def)

lemma demo_layers:
  "layers (build demo_hasher demo_leaves)
     = [[''L4'', ''L7'', ''L9''], [''H(L4L7)'', ''L9''], [''H(H(L4L7)L9)'']]"
  by (simp add: build_def Let_def demo_ordered demo_hashes buildLayers_three demo_internalHash)

lemma demo_root: "root (build demo_hasher demo_leaves) = Some ''H(H(L4L7)L9)''"
  by (simp add: build_def Let_def demo_ordered demo_hashes buildLayers_three demo_internalHash)

theorem odd_layer_carried_up_witness:
  "odd (length [''a'', ''b'', ''c''])
   \<and> last (nextLayer demo_hasher [''a'', ''b'', ''c'']) = last [''a'', ''b'', ''c'']
   \<and> sort_key issueNumber demo_leaves = [demo_leaf 4, demo_leaf 7, demo_leaf 9]
   \<and> layers (build demo_hasher demo_leaves) ! 1
       = [hash demo_hasher (sortedConcat (leafHash demo_hasher (demo_leaf 4))
                                         (leafHash demo_hasher (demo_leaf 7))),
          leafHash demo_hasher (demo_leaf 9)]
   \<and> layers (build demo_hasher demo_leaves) ! 1 = [''H(L4L7)'', ''L9'']
   \<and> root (build demo_hasher demo_leaves) = Some ''H(H(L4L7)L9)''"
proof -
  note t = odd_layer_carried_up [of "[''a'', ''b'', ''c'']" demo_hasher 0 demo_leaves
      "demo_leaf 4" "demo_leaf 7" "demo_leaf 9"]
  have o: "odd (length [''a'', ''b'', ''c''])" by simp
  have l: "last (nextLayer demo_hasher [''a'', ''b'', ''c'']) = last [''a'', ''b'', ''c'']"
    by (rule t [THEN conjunct1, THEN mp, OF o, THEN conjunct1])
  have l1: "layers (build demo_hasher demo_leaves) ! 1
       = [hash demo_hasher (sortedConcat (leafHash demo_hasher (demo_leaf 4))
                                         (leafHash demo_hasher (demo_leaf 7))),
          leafHash demo_hasher (demo_leaf 9)]"
    by (rule t [THEN conjunct2, THEN conjunct2, THEN mp, OF demo_ordered,
          THEN conjunct2, THEN conjunct1])
  have l2: "layers (build demo_hasher demo_leaves) ! 1 = [''H(L4L7)'', ''L9'']"
    by (simp add: demo_layers)
  show ?thesis
    by (intro conjI) (rule o l demo_ordered l1 l2 demo_root)+
qed

lemma demo_proof_of_last_leaf:
  "proveMembership (build demo_hasher demo_leaves) 2 = Some [''H(L4L7)'']
   \<and> verifyMembership demo_hasher (demo_leaf 9) [''H(L4L7)''] ''H(H(L4L7)L9)''
   \<and> proveMembership (build demo_hasher demo_leaves) 0 = Some [''L7'', ''L9'']
   \<and> verifyMembership demo_hasher (demo_leaf 4) [''L7'', ''L9''] ''H(H(L4L7)L9)''"
  by (simp add: proveMembership_def demo_layers verifyMembership_def demo_hashes
      demo_internalHash)

end
